theory Spec2Isabelle
  imports Main "HOL-Library.AList" "HOL-Library.Sublist"
begin

section \<open>Data model (src/dialogue/fsm.py, src/slots/schemas.py)\<close>

text \<open>
  Python dictionaries keep their insertion order, and the code reads that order
  (\<^verbatim>\<open>list(pending_normalization.keys())[0]\<close>, the comprehension of
  \<^verbatim>\<open>get_filled_slots\<close>), so every dictionary is an association list with the
  dictionary's semantics: \<^const>\<open>map_of\<close> looks a key up, \<^const>\<open>AList.update\<close> stores
  (in place when the key exists, at the end otherwise) and \<^const>\<open>AList.map_entry\<close>
  changes the record stored under a key. Slot values are strings, and the field
  \<^verbatim>\<open>value\<close> of a slot record is \<open>slot_value\<close> here. Python's unbounded
  integers are \<^typ>\<open>int\<close>. The wall-clock fields \<^verbatim>\<open>created_at\<close> and \<^verbatim>\<open>updated_at\<close>
  are written by the mutators and read by no operation; they are not part of the model.
\<close>

datatype error = ValueError | KeyError

datatype FSMState =
  INIT | COLLECTING_SLOT | CONFIRMING_NORMALIZATION | READY_TO_EXECUTE
  | EXECUTING_ACTION | COMPLETED | GENERAL_CHAT | TERMINATED

record SlotValue =
  slot_value :: string
  confirmed :: bool
  retry_count :: int
  normalized_value :: "string option"
  needs_confirmation :: bool

record FSMStateData =
  current_state :: FSMState
  active_intent :: "string option"
  queued_intents :: "string list"
  slot_values :: "(string \<times> SlotValue) list"
  current_slot_being_collected :: "string option"
  slot_retry_counts :: "(string \<times> int) list"
  conversation_id :: "string option"
  pending_normalization :: "(string \<times> string) list option"

text \<open>Python truthiness of an optional string: \<^verbatim>\<open>None\<close> and \<^verbatim>\<open>""\<close> are falsy.\<close>

fun truthy :: "string option \<Rightarrow> bool" where
  "truthy None = False"
| "truthy (Some v) = (v \<noteq> [])"

subsection \<open>Schema registry\<close>

record SlotSchema =
  name :: string
  question :: string

definition TASK_SCHEMAS :: "(string \<times> SlotSchema list) list" where
  "TASK_SCHEMAS = [
    (''request_time_off'', [
      \<lparr>name = ''employee_name'', question = ''What is your name?''\<rparr>,
      \<lparr>name = ''start_date'', question = ''When would you like to start your time off?''\<rparr>,
      \<lparr>name = ''end_date'', question = ''When would you like to return?''\<rparr>,
      \<lparr>name = ''time_off_type'',
        question = ''What type of time off is this? (e.g., vacation, sick, personal)''\<rparr>,
      \<lparr>name = ''reason'', question = ''What is the reason for this time off request?''\<rparr>,
      \<lparr>name = ''notify_manager'', question = ''Should we notify your manager? (yes/no)''\<rparr>]),
    (''schedule_meeting'', [
      \<lparr>name = ''organizer_name'', question = ''Who is organizing this meeting?''\<rparr>,
      \<lparr>name = ''date'', question = ''What date should the meeting be scheduled?''\<rparr>,
      \<lparr>name = ''start_time'', question = ''What time should the meeting start?''\<rparr>,
      \<lparr>name = ''end_time'', question = ''What time should the meeting end?''\<rparr>,
      \<lparr>name = ''participants'', question = ''Who should attend this meeting?''\<rparr>,
      \<lparr>name = ''meeting_platform'',
        question = ''Which platform should be used? (e.g., Zoom, Teams, Google Meet)''\<rparr>,
      \<lparr>name = ''agenda'', question = ''What is the agenda for this meeting?''\<rparr>]),
    (''submit_it_ticket'', [
      \<lparr>name = ''requester_name'', question = ''What is your name?''\<rparr>,
      \<lparr>name = ''issue_category'',
        question = ''What category does this issue fall under? (e.g., hardware, software, network)''\<rparr>,
      \<lparr>name = ''issue_description'', question = ''Please describe the issue in detail.''\<rparr>,
      \<lparr>name = ''urgency'', question = ''What is the urgency level? (low, medium, high, critical)''\<rparr>,
      \<lparr>name = ''affected_system'', question = ''Which system is affected?''\<rparr>,
      \<lparr>name = ''contact_email'', question = ''What is your contact email?''\<rparr>]),
    (''file_medical_claim'', [
      \<lparr>name = ''employee_name'', question = ''What is your name?''\<rparr>,
      \<lparr>name = ''incident_date'', question = ''When did the medical incident occur?''\<rparr>,
      \<lparr>name = ''provider_name'', question = ''What is the name of the healthcare provider?''\<rparr>,
      \<lparr>name = ''claim_amount'', question = ''What is the claim amount?''\<rparr>,
      \<lparr>name = ''claim_type'',
        question = ''What type of claim is this? (e.g., doctor visit, prescription, procedure)''\<rparr>,
      \<lparr>name = ''description'', question = ''Please describe the medical claim.''\<rparr>])]"

text \<open>\<^verbatim>\<open>get_schema\<close> raises \<^verbatim>\<open>ValueError\<close> for a name that is not in the registry.\<close>

definition get_schema :: "string \<Rightarrow> error + SlotSchema list" where
  "get_schema intent_name =
     (case map_of TASK_SCHEMAS intent_name of
        None \<Rightarrow> Inl ValueError
      | Some slots \<Rightarrow> Inr slots)"

definition get_slot_names :: "string \<Rightarrow> error + string list" where
  "get_slot_names intent_name =
     (case get_schema intent_name of
        Inl e \<Rightarrow> Inl e
      | Inr slots \<Rightarrow> Inr (map name slots))"

text \<open>The dictionary comprehension stores the slots in order; a repeated name keeps its
  first position and takes the later question.\<close>

definition get_slot_questions :: "string \<Rightarrow> error + (string \<times> string) list" where
  "get_slot_questions intent_name =
     (case get_schema intent_name of
        Inl e \<Rightarrow> Inl e
      | Inr slots \<Rightarrow> Inr (foldl (\<lambda>d sl. AList.update (name sl) (question sl) d) [] slots))"

subsection \<open>The state machine\<close>

definition init_state :: "string option \<Rightarrow> FSMStateData" where
  "init_state cid =
     \<lparr>current_state = INIT, active_intent = None, queued_intents = [], slot_values = [],
      current_slot_being_collected = None, slot_retry_counts = [], conversation_id = cid,
      pending_normalization = None\<rparr>"

definition get_filled_slots :: "FSMStateData \<Rightarrow> (string \<times> string) list" where
  "get_filled_slots s =
     map (\<lambda>(n, slot). (n, slot_value slot)) (filter (\<lambda>(n, slot). confirmed slot) (slot_values s))"

definition get_missing_slots :: "FSMStateData \<Rightarrow> string \<Rightarrow> error + string list" where
  "get_missing_slots s intent_name =
     (if intent_name = [] then Inr []
      else case get_slot_names intent_name of
             Inl e \<Rightarrow> Inl e
           | Inr required_slots \<Rightarrow>
               Inr (filter (\<lambda>x. x \<notin> set (map fst (slot_values s))) required_slots))"

definition get_next_missing_slot :: "FSMStateData \<Rightarrow> string \<Rightarrow> error + string option" where
  "get_next_missing_slot s intent_name =
     (case get_missing_slots s intent_name of
        Inl e \<Rightarrow> Inl e
      | Inr missing \<Rightarrow> Inr (case missing of [] \<Rightarrow> None | x # _ \<Rightarrow> Some x))"

definition transition_to :: "FSMStateData \<Rightarrow> FSMState \<Rightarrow> FSMStateData" where
  "transition_to s new_state = s\<lparr>current_state := new_state\<rparr>"

text \<open>Operations that return a value return it beside the state they leave.\<close>

definition set_active_intent :: "FSMStateData \<Rightarrow> string \<Rightarrow> bool \<times> FSMStateData" where
  "set_active_intent s intent_name =
     (if current_state s \<in> set [COLLECTING_SLOT, CONFIRMING_NORMALIZATION, READY_TO_EXECUTE,
                                 EXECUTING_ACTION]
      then (False,
            if intent_name \<notin> set (queued_intents s)
            then s\<lparr>queued_intents := queued_intents s @ [intent_name]\<rparr>
            else s)
      else (True,
            transition_to
              (s\<lparr>active_intent := Some intent_name, slot_values := [], slot_retry_counts := [],
                 current_slot_being_collected := None, pending_normalization := None\<rparr>)
              COLLECTING_SLOT))"

definition set_general_chat :: "FSMStateData \<Rightarrow> FSMStateData" where
  "set_general_chat s = transition_to (s\<lparr>active_intent := None\<rparr>) GENERAL_CHAT"

definition dict_get :: "('k \<times> 'v) list \<Rightarrow> 'k \<Rightarrow> 'v \<Rightarrow> 'v" where
  "dict_get d k dflt = (case map_of d k of None \<Rightarrow> dflt | Some v \<Rightarrow> v)"

definition fill_slot :: "FSMStateData \<Rightarrow> string \<Rightarrow> string \<Rightarrow> bool \<Rightarrow> bool \<times> FSMStateData" where
  "fill_slot s slot_name v c =
     (if (case map_of (slot_values s) slot_name of None \<Rightarrow> False | Some existing \<Rightarrow> confirmed existing)
      then (False, s)
      else (True,
            s\<lparr>slot_values :=
                 AList.update slot_name
                   \<lparr>slot_value = v, confirmed = c,
                    retry_count = dict_get (slot_retry_counts s) slot_name 0,
                    normalized_value = None, needs_confirmation = False\<rparr>
                   (slot_values s)\<rparr>))"

definition confirm_slot :: "FSMStateData \<Rightarrow> string \<Rightarrow> bool \<times> FSMStateData" where
  "confirm_slot s slot_name =
     (if slot_name \<notin> set (map fst (slot_values s)) then (False, s)
      else (True,
            s\<lparr>slot_values :=
                 AList.map_entry slot_name
                   (\<lambda>slot. slot\<lparr>confirmed := True, needs_confirmation := False\<rparr>) (slot_values s),
              pending_normalization := None\<rparr>))"

definition reject_normalization :: "FSMStateData \<Rightarrow> string \<Rightarrow> FSMStateData" where
  "reject_normalization s slot_name =
     s\<lparr>slot_values :=
          AList.map_entry slot_name
            (\<lambda>slot. slot\<lparr>normalized_value := None, needs_confirmation := False\<rparr>) (slot_values s),
       pending_normalization := None\<rparr>"

definition MAX_RETRIES :: int where
  "MAX_RETRIES = 3"

definition increment_retry :: "FSMStateData \<Rightarrow> string \<Rightarrow> bool \<times> FSMStateData" where
  "increment_retry s slot_name =
     (let current_retries = dict_get (slot_retry_counts s) slot_name 0 + 1
      in (current_retries < MAX_RETRIES,
          s\<lparr>slot_retry_counts := AList.update slot_name current_retries (slot_retry_counts s),
            slot_values :=
              AList.map_entry slot_name (\<lambda>slot. slot\<lparr>retry_count := current_retries\<rparr>)
                (slot_values s)\<rparr>))"

definition set_current_slot :: "FSMStateData \<Rightarrow> string option \<Rightarrow> FSMStateData" where
  "set_current_slot s slot_name = s\<lparr>current_slot_being_collected := slot_name\<rparr>"

definition set_pending_normalization :: "FSMStateData \<Rightarrow> string \<Rightarrow> string \<Rightarrow> FSMStateData" where
  "set_pending_normalization s slot_name proposed_value =
     s\<lparr>pending_normalization :=
          Some (AList.update slot_name proposed_value
                  (case pending_normalization s of None \<Rightarrow> [] | Some d \<Rightarrow> d)),
       slot_values :=
         AList.map_entry slot_name
           (\<lambda>slot. slot\<lparr>normalized_value := Some proposed_value, needs_confirmation := True\<rparr>)
           (slot_values s)\<rparr>"

definition check_all_slots_filled :: "FSMStateData \<Rightarrow> string \<Rightarrow> error + bool" where
  "check_all_slots_filled s intent_name =
     (if intent_name = [] then Inr False
      else case get_slot_names intent_name of
             Inl e \<Rightarrow> Inl e
           | Inr required_slots \<Rightarrow>
               Inr (list_all
                      (\<lambda>slot_name. case map_of (slot_values s) slot_name of
                                      None \<Rightarrow> False
                                    | Some slot \<Rightarrow> confirmed slot)
                      required_slots))"

datatype collection_result = Retry string | MaxRetries string | Fill string string

definition process_slot_collection ::
  "FSMStateData \<Rightarrow> string \<Rightarrow> string option \<Rightarrow> collection_result \<times> FSMStateData" where
  "process_slot_collection s slot_name extracted_value =
     (if \<not> truthy extracted_value
      then (let (can_retry, s') = increment_retry s slot_name
            in if can_retry then (Retry slot_name, s') else (MaxRetries slot_name, s'))
      else (Fill slot_name (the extracted_value),
            snd (fill_slot s slot_name (the extracted_value) False)))"

text \<open>\<^verbatim>\<open>advance_state\<close> raises what \<^verbatim>\<open>check_all_slots_filled\<close> raises: the active
  intent is a name the registry may not know.\<close>

definition advance_state :: "FSMStateData \<Rightarrow> error + FSMStateData" where
  "advance_state s =
     (case current_state s of
        INIT \<Rightarrow> Inr s
      | COLLECTING_SLOT \<Rightarrow>
          (if truthy (active_intent s)
           then (case check_all_slots_filled s (the (active_intent s)) of
                   Inl e \<Rightarrow> Inl e
                 | Inr True \<Rightarrow> Inr (transition_to s READY_TO_EXECUTE)
                 | Inr False \<Rightarrow>
                     (case pending_normalization s of
                        Some (p # ps) \<Rightarrow> Inr (transition_to s CONFIRMING_NORMALIZATION)
                      | _ \<Rightarrow> Inr s))
           else Inr s)
      | CONFIRMING_NORMALIZATION \<Rightarrow>
          (if truthy (active_intent s)
           then (case check_all_slots_filled s (the (active_intent s)) of
                   Inl e \<Rightarrow> Inl e
                 | Inr True \<Rightarrow> Inr (transition_to s READY_TO_EXECUTE)
                 | Inr False \<Rightarrow> Inr (transition_to s COLLECTING_SLOT))
           else Inr s)
      | READY_TO_EXECUTE \<Rightarrow> Inr s
      | EXECUTING_ACTION \<Rightarrow> Inr (transition_to s COMPLETED)
      | COMPLETED \<Rightarrow>
          (case queued_intents s of
             next_intent # rest \<Rightarrow>
               Inr (snd (set_active_intent (s\<lparr>queued_intents := rest\<rparr>) next_intent))
           | [] \<Rightarrow> Inr ((transition_to s INIT)\<lparr>active_intent := None\<rparr>))
      | GENERAL_CHAT \<Rightarrow> Inr s
      | TERMINATED \<Rightarrow> Inr s)"

definition start_action_execution :: "FSMStateData \<Rightarrow> FSMStateData" where
  "start_action_execution s =
     (if current_state s = READY_TO_EXECUTE then transition_to s EXECUTING_ACTION else s)"

definition complete_action :: "FSMStateData \<Rightarrow> error + FSMStateData" where
  "complete_action s = advance_state (transition_to s COMPLETED)"

definition terminate :: "FSMStateData \<Rightarrow> FSMStateData" where
  "terminate s = transition_to s TERMINATED"

subsection \<open>Snapshots\<close>

text \<open>
  A snapshot is the dictionary \<^verbatim>\<open>get_state_snapshot\<close> builds. \<^verbatim>\<open>load_state_snapshot\<close>
  indexes \<^verbatim>\<open>current_state\<close>, \<^verbatim>\<open>value\<close> and \<^verbatim>\<open>confirmed\<close> and reads every other key
  with \<^verbatim>\<open>get\<close>, so those keys are optional: \<^const>\<open>None\<close> is the absent key (for
  \<^verbatim>\<open>active_intent\<close>, \<^verbatim>\<open>normalized_value\<close> and the like also the stored \<^verbatim>\<open>None\<close>,
  which \<^verbatim>\<open>get\<close> does not tell apart).
\<close>

record SlotDict =
  sd_value :: string
  sd_confirmed :: bool
  sd_retry_count :: "int option"
  sd_normalized_value :: "string option"
  sd_needs_confirmation :: "bool option"

record Snapshot =
  snap_current_state :: string
  snap_active_intent :: "string option"
  snap_queued_intents :: "string list option"
  snap_slot_values :: "(string \<times> SlotDict) list option"
  snap_current_slot_being_collected :: "string option"
  snap_slot_retry_counts :: "(string \<times> int) list option"
  snap_conversation_id :: "string option"
  snap_pending_normalization :: "(string \<times> string) list option"

fun FSMState_value :: "FSMState \<Rightarrow> string" where
  "FSMState_value INIT = ''INIT''"
| "FSMState_value COLLECTING_SLOT = ''COLLECTING_SLOT''"
| "FSMState_value CONFIRMING_NORMALIZATION = ''CONFIRMING_NORMALIZATION''"
| "FSMState_value READY_TO_EXECUTE = ''READY_TO_EXECUTE''"
| "FSMState_value EXECUTING_ACTION = ''EXECUTING_ACTION''"
| "FSMState_value COMPLETED = ''COMPLETED''"
| "FSMState_value GENERAL_CHAT = ''GENERAL_CHAT''"
| "FSMState_value TERMINATED = ''TERMINATED''"

text \<open>\<^verbatim>\<open>FSMState(text)\<close> raises \<^verbatim>\<open>ValueError\<close> for a text that is no member's value.\<close>

definition FSMState_of_value :: "string \<Rightarrow> error + FSMState" where
  "FSMState_of_value v =
     (case filter (\<lambda>st. FSMState_value st = v)
             [INIT, COLLECTING_SLOT, CONFIRMING_NORMALIZATION, READY_TO_EXECUTE,
              EXECUTING_ACTION, COMPLETED, GENERAL_CHAT, TERMINATED] of
        [] \<Rightarrow> Inl ValueError
      | st # _ \<Rightarrow> Inr st)"

definition slot_to_dict :: "SlotValue \<Rightarrow> SlotDict" where
  "slot_to_dict slot =
     \<lparr>sd_value = slot_value slot, sd_confirmed = confirmed slot,
      sd_retry_count = Some (retry_count slot), sd_normalized_value = normalized_value slot,
      sd_needs_confirmation = Some (needs_confirmation slot)\<rparr>"

definition slot_of_dict :: "SlotDict \<Rightarrow> SlotValue" where
  "slot_of_dict slot_data =
     \<lparr>slot_value = sd_value slot_data, confirmed = sd_confirmed slot_data,
      retry_count = (case sd_retry_count slot_data of None \<Rightarrow> 0 | Some r \<Rightarrow> r),
      normalized_value = sd_normalized_value slot_data,
      needs_confirmation =
        (case sd_needs_confirmation slot_data of None \<Rightarrow> False | Some b \<Rightarrow> b)\<rparr>"

definition get_state_snapshot :: "FSMStateData \<Rightarrow> Snapshot" where
  "get_state_snapshot s =
     \<lparr>snap_current_state = FSMState_value (current_state s),
      snap_active_intent = active_intent s,
      snap_queued_intents = Some (queued_intents s),
      snap_slot_values = Some (map (\<lambda>(n, slot). (n, slot_to_dict slot)) (slot_values s)),
      snap_current_slot_being_collected = current_slot_being_collected s,
      snap_slot_retry_counts = Some (slot_retry_counts s),
      snap_conversation_id = conversation_id s,
      snap_pending_normalization =
        (case pending_normalization s of Some (p # ps) \<Rightarrow> Some (p # ps) | _ \<Rightarrow> None)\<rparr>"

definition load_state_snapshot :: "FSMStateData \<Rightarrow> Snapshot \<Rightarrow> error + FSMStateData" where
  "load_state_snapshot s snapshot =
     (case FSMState_of_value (snap_current_state snapshot) of
        Inl e \<Rightarrow> Inl e
      | Inr st \<Rightarrow>
          Inr (s\<lparr>current_state := st,
                 active_intent := snap_active_intent snapshot,
                 queued_intents :=
                   (case snap_queued_intents snapshot of None \<Rightarrow> [] | Some q \<Rightarrow> q),
                 current_slot_being_collected := snap_current_slot_being_collected snapshot,
                 slot_retry_counts :=
                   (case snap_slot_retry_counts snapshot of None \<Rightarrow> [] | Some d \<Rightarrow> d),
                 conversation_id := snap_conversation_id snapshot,
                 pending_normalization := snap_pending_normalization snapshot,
                 slot_values :=
                   map (\<lambda>(n, slot_data). (n, slot_of_dict slot_data))
                     (case snap_slot_values snapshot of None \<Rightarrow> [] | Some d \<Rightarrow> d)\<rparr>))"

subsection \<open>Sequences of calls\<close>

text \<open>
  The public mutators of the class, as a datatype of calls, so that theorems can speak
  about any sequence of them. A call is run on the state the call before it left.
\<close>

datatype fsm_op =
  OpSetActiveIntent string
  | OpSetGeneralChat
  | OpFillSlot string string bool
  | OpConfirmSlot string
  | OpRejectNormalization string
  | OpIncrementRetry string
  | OpSetCurrentSlot "string option"
  | OpSetPendingNormalization string string
  | OpTransitionTo FSMState
  | OpProcessSlotCollection string "string option"
  | OpAdvanceState
  | OpStartActionExecution
  | OpCompleteAction
  | OpTerminate

fun apply_op :: "fsm_op \<Rightarrow> FSMStateData \<Rightarrow> error + FSMStateData" where
  "apply_op (OpSetActiveIntent n) s = Inr (snd (set_active_intent s n))"
| "apply_op OpSetGeneralChat s = Inr (set_general_chat s)"
| "apply_op (OpFillSlot n v c) s = Inr (snd (fill_slot s n v c))"
| "apply_op (OpConfirmSlot n) s = Inr (snd (confirm_slot s n))"
| "apply_op (OpRejectNormalization n) s = Inr (reject_normalization s n)"
| "apply_op (OpIncrementRetry n) s = Inr (snd (increment_retry s n))"
| "apply_op (OpSetCurrentSlot n) s = Inr (set_current_slot s n)"
| "apply_op (OpSetPendingNormalization n v) s = Inr (set_pending_normalization s n v)"
| "apply_op (OpTransitionTo st) s = Inr (transition_to s st)"
| "apply_op (OpProcessSlotCollection n v) s = Inr (snd (process_slot_collection s n v))"
| "apply_op OpAdvanceState s = advance_state s"
| "apply_op OpStartActionExecution s = Inr (start_action_execution s)"
| "apply_op OpCompleteAction s = complete_action s"
| "apply_op OpTerminate s = Inr (terminate s)"

text \<open>
  A call starts a new task instance when it runs the resetting branch of
  \<^verbatim>\<open>set_active_intent\<close>: directly, or through \<^verbatim>\<open>advance_state\<close> taking the head of
  the queue in \<^verbatim>\<open>COMPLETED\<close> (which \<^verbatim>\<open>complete_action\<close> always reaches).
\<close>

fun starts_task :: "fsm_op \<Rightarrow> FSMStateData \<Rightarrow> bool" where
  "starts_task (OpSetActiveIntent n) s = fst (set_active_intent s n)"
| "starts_task OpAdvanceState s = (current_state s = COMPLETED \<and> queued_intents s \<noteq> [])"
| "starts_task OpCompleteAction s = (queued_intents s \<noteq> [])"
| "starts_task _ s = False"

text \<open>Running calls inside one task instance: \<^const>\<open>None\<close> when a call raises or starts
  a new task instance.\<close>

fun run_in_task :: "fsm_op list \<Rightarrow> FSMStateData \<Rightarrow> FSMStateData option" where
  "run_in_task [] s = Some s"
| "run_in_task (op # ops) s =
     (if starts_task op s then None
      else case apply_op op s of
             Inl e \<Rightarrow> None
           | Inr s' \<Rightarrow> run_in_task ops s')"

text \<open>The calls of a sequence that count a failed attempt for a slot.\<close>

fun counts_retry :: "string \<Rightarrow> fsm_op \<Rightarrow> bool" where
  "counts_retry n (OpIncrementRetry m) = (m = n)"
| "counts_retry n (OpProcessSlotCollection m v) = (m = n \<and> \<not> truthy v)"
| "counts_retry n _ = False"

text \<open>
  The states a conversation can be in: the state of a new machine, followed by any calls
  of the mutators that return, and by loading the snapshot taken of such a state.
\<close>

inductive reachable :: "FSMStateData \<Rightarrow> bool" where
  reachable_init: "reachable (init_state cid)"
| reachable_op: "reachable s \<Longrightarrow> apply_op op s = Inr s' \<Longrightarrow> reachable s'"
| reachable_load:
    "reachable s \<Longrightarrow> reachable t \<Longrightarrow> load_state_snapshot t (get_state_snapshot s) = Inr s'
     \<Longrightarrow> reachable s'"

section \<open>The dialogue manager (src/dialogue/dialogue_manager.py)\<close>

subsection \<open>Strings\<close>

text \<open>
  Strings are lists of 8-bit characters: the code points up to \<^verbatim>\<open>U+00FF\<close>.
  \<^verbatim>\<open>str.strip\<close> removes the white space of both ends; the white space among these
  code points is tab, line feed, vertical tab, form feed, carriage return, the four
  separators \<^verbatim>\<open>0x1c\<close>..\<^verbatim>\<open>0x1f\<close>, the blank, the next-line control \<^verbatim>\<open>0x85\<close> and the
  no-break space \<^verbatim>\<open>0xa0\<close>. \<^verbatim>\<open>str.lower\<close> maps \<^verbatim>\<open>A\<close>..\<^verbatim>\<open>Z\<close> to \<^verbatim>\<open>a\<close>..\<^verbatim>\<open>z\<close> and
  the capital letters \<^verbatim>\<open>0xc0\<close>..\<^verbatim>\<open>0xde\<close> (all but the multiplication sign
  \<^verbatim>\<open>0xd7\<close>) to the letters \<^verbatim>\<open>0x20\<close> above them. \<^verbatim>\<open>a in b\<close> on strings is containment
  of \<^verbatim>\<open>a\<close> as a contiguous part of \<^verbatim>\<open>b\<close>, which is \<^const>\<open>sublist\<close>.
\<close>

definition is_space :: "char \<Rightarrow> bool" where
  "is_space c =
     (c \<in> set [CHR 0x09, CHR 0x0A, CHR 0x0B, CHR 0x0C, CHR 0x0D, CHR 0x1C, CHR 0x1D, CHR 0x1E,
               CHR 0x1F, CHR '' '', CHR 0x85, CHR 0xA0])"

definition upper_letters :: "char list" where
  "upper_letters =
     ''ABCDEFGHIJKLMNOPQRSTUVWXYZ''
     @ [CHR 0xC0, CHR 0xC1, CHR 0xC2, CHR 0xC3, CHR 0xC4, CHR 0xC5, CHR 0xC6, CHR 0xC7,
          CHR 0xC8, CHR 0xC9, CHR 0xCA, CHR 0xCB, CHR 0xCC, CHR 0xCD, CHR 0xCE, CHR 0xCF,
          CHR 0xD0, CHR 0xD1, CHR 0xD2, CHR 0xD3, CHR 0xD4, CHR 0xD5, CHR 0xD6, CHR 0xD8,
          CHR 0xD9, CHR 0xDA, CHR 0xDB, CHR 0xDC, CHR 0xDD, CHR 0xDE]"

definition lower_letters :: "char list" where
  "lower_letters =
     ''abcdefghijklmnopqrstuvwxyz''
     @ [CHR 0xE0, CHR 0xE1, CHR 0xE2, CHR 0xE3, CHR 0xE4, CHR 0xE5, CHR 0xE6, CHR 0xE7,
          CHR 0xE8, CHR 0xE9, CHR 0xEA, CHR 0xEB, CHR 0xEC, CHR 0xED, CHR 0xEE, CHR 0xEF,
          CHR 0xF0, CHR 0xF1, CHR 0xF2, CHR 0xF3, CHR 0xF4, CHR 0xF5, CHR 0xF6, CHR 0xF8,
          CHR 0xF9, CHR 0xFA, CHR 0xFB, CHR 0xFC, CHR 0xFD, CHR 0xFE]"

definition lower_char :: "char \<Rightarrow> char" where
  "lower_char c =
     (case map_of (zip upper_letters lower_letters) c of
        None \<Rightarrow> c
      | Some d \<Rightarrow> d)"

definition lower :: "string \<Rightarrow> string" where
  "lower u = map lower_char u"

definition strip :: "string \<Rightarrow> string" where
  "strip u = rev (dropWhile is_space (rev (dropWhile is_space u)))"

text \<open>\<^verbatim>\<open>text.replace('_', ' ')\<close>.\<close>

definition replace_underscores :: "string \<Rightarrow> string" where
  "replace_underscores u = map (\<lambda>c. if c = CHR ''_'' then CHR '' '' else c) u"

subsection \<open>Turn results and collaborators\<close>

datatype MetaValue = MStr string | MNone | MSlots "(string \<times> string) list"

record TurnResult =
  response_text :: string
  action :: string
  metadata :: "(string \<times> MetaValue) list"

text \<open>
  The intent router, the slot selector and the slot extractor are learned models and
  calls to a language model; the dialogue manager holds them as objects and only calls
  \<^verbatim>\<open>detect_intent(utterance)\<close>, \<^verbatim>\<open>select_slots(utterance, intent, filled)\<close> and
  \<^verbatim>\<open>extract_slot_value(utterance, slot, intent)\<close>. They are parameters of the model: any
  three functions.
\<close>

record Collaborators =
  detect_intent :: "string \<Rightarrow> string option"
  select_slots :: "string \<Rightarrow> string \<Rightarrow> (string \<times> string) list \<Rightarrow> string list"
  extract_slot_value :: "string \<Rightarrow> string \<Rightarrow> string \<Rightarrow> string option"

definition ready_all_result :: TurnResult where
  "ready_all_result =
     \<lparr>response_text = ''I have all the information I need. Ready to proceed?'',
      action = ''ready_to_execute'', metadata = []\<rparr>"

definition ready_result :: TurnResult where
  "ready_result =
     \<lparr>response_text = ''I have the information I need. Ready to proceed?'',
      action = ''ready_to_execute'', metadata = []\<rparr>"

definition error_result :: TurnResult where
  "error_result =
     \<lparr>response_text = ''Error: No active intent.'', action = ''error'', metadata = []\<rparr>"

subsection \<open>Asking for the next slot\<close>

text \<open>A turn returns its result beside the state it leaves; an exception ends the turn
  with \<^const>\<open>Inl\<close>.\<close>

definition start_slot_collection :: "FSMStateData \<Rightarrow> error + TurnResult \<times> FSMStateData" where
  "start_slot_collection s =
     (if \<not> truthy (active_intent s) then Inr (error_result, s)
      else let intent_name = the (active_intent s)
           in case get_next_missing_slot s intent_name of
                Inl e \<Rightarrow> Inl e
              | Inr next_slot \<Rightarrow>
                  if \<not> truthy next_slot
                  then (case advance_state s of
                          Inl e \<Rightarrow> Inl e
                        | Inr s' \<Rightarrow> Inr (ready_all_result, s'))
                  else (let s' = set_current_slot s next_slot
                        in case get_slot_questions intent_name of
                             Inl e \<Rightarrow> Inl e
                           | Inr slot_questions \<Rightarrow>
                               (case map_of slot_questions (the next_slot) of
                                  None \<Rightarrow> Inl KeyError
                                | Some q \<Rightarrow>
                                    Inr (\<lparr>response_text = q, action = ''ask_slot'',
                                          metadata = [(''slot'', MStr (the next_slot)),
                                                      (''intent'', MStr intent_name),
                                                      (''question'', MStr q)]\<rparr>,
                                         s'))))"

subsection \<open>Slot collection\<close>

text \<open>
  \<^verbatim>\<open>_handle_slot_collection\<close> repeats two blocks of code. The first stores a value:
  \<^verbatim>\<open>fill_slot\<close>, \<^verbatim>\<open>confirm_slot\<close> (here \<open>fill_and_confirm\<close>), then
  \<^verbatim>\<open>advance_state\<close>, \<^verbatim>\<open>check_all_slots_filled\<close> and either the ready answer or the next
  question (here \<open>after_fill\<close>); it occurs at lines 213-226, 272-289 and 300-310.
  The second counts a failed attempt and retries or gives the slot up (here
  \<open>retry_current_slot\<close>); it occurs at lines 231-254 and 314-335.
\<close>

definition fill_and_confirm :: "FSMStateData \<Rightarrow> string \<Rightarrow> string \<Rightarrow> FSMStateData" where
  "fill_and_confirm s slot_name v = snd (confirm_slot (snd (fill_slot s slot_name v False)) slot_name)"

definition after_fill :: "FSMStateData \<Rightarrow> string \<Rightarrow> error + TurnResult \<times> FSMStateData" where
  "after_fill s intent_name =
     (case advance_state s of
        Inl e \<Rightarrow> Inl e
      | Inr s' \<Rightarrow>
          (case check_all_slots_filled s' intent_name of
             Inl e \<Rightarrow> Inl e
           | Inr True \<Rightarrow> Inr (ready_all_result, s')
           | Inr False \<Rightarrow> start_slot_collection s'))"

definition retry_current_slot ::
  "FSMStateData \<Rightarrow> string \<Rightarrow> string \<Rightarrow> error + TurnResult \<times> FSMStateData" where
  "retry_current_slot s current_slot intent_name =
     (let (retry_result, s1) = process_slot_collection s current_slot None
      in case retry_result of
           MaxRetries _ \<Rightarrow>
             (let s2 = set_current_slot s1 None
              in case get_next_missing_slot s2 intent_name of
                   Inl e \<Rightarrow> Inl e
                 | Inr next_slot \<Rightarrow>
                     if truthy next_slot then start_slot_collection s2
                     else Inr (ready_result, s2))
         | _ \<Rightarrow>
             (case get_slot_questions intent_name of
                Inl e \<Rightarrow> Inl e
              | Inr slot_questions \<Rightarrow>
                  (case map_of slot_questions current_slot of
                     None \<Rightarrow> Inl KeyError
                   | Some q \<Rightarrow>
                       Inr (\<lparr>response_text = ''Could you please clarify: '' @ q,
                             action = ''retry_slot'',
                             metadata = [(''slot'', MStr current_slot),
                                         (''question'', MStr q)]\<rparr>,
                            s1))))"

text \<open>The loop that extracts a value for each selected slot that is not filled yet.\<close>

fun extract_selected ::
  "Collaborators \<Rightarrow> string \<Rightarrow> string \<Rightarrow> (string \<times> string) list \<Rightarrow> string list
   \<Rightarrow> (string \<times> string) list \<Rightarrow> (string \<times> string) list" where
  "extract_selected c u intent_name filled_slots [] extracted_values = extracted_values"
| "extract_selected c u intent_name filled_slots (slot_name # rest) extracted_values =
     extract_selected c u intent_name filled_slots rest
       (if slot_name \<notin> set (map fst filled_slots)
        then (let v = extract_slot_value c u slot_name intent_name
              in if truthy v then AList.update slot_name (the v) extracted_values
                 else extracted_values)
        else extracted_values)"

text \<open>The loop that stores and confirms the extracted values.\<close>

fun fill_extracted :: "FSMStateData \<Rightarrow> (string \<times> string) list \<Rightarrow> FSMStateData" where
  "fill_extracted s [] = s"
| "fill_extracted s ((slot_name, v) # rest) = fill_extracted (fill_and_confirm s slot_name v) rest"

definition handle_slot_collection ::
  "Collaborators \<Rightarrow> FSMStateData \<Rightarrow> string \<Rightarrow> error + TurnResult \<times> FSMStateData" where
  "handle_slot_collection c s u =
     (if \<not> truthy (active_intent s) then Inr (error_result, s)
      else let intent_name = the (active_intent s)
           in case (if truthy (current_slot_being_collected s)
                    then Inr (current_slot_being_collected s, s)
                    else case get_next_missing_slot s intent_name of
                           Inl e \<Rightarrow> Inl e
                         | Inr next_slot \<Rightarrow> Inr (next_slot, set_current_slot s next_slot)) of
                Inl e \<Rightarrow> Inl e
              | Inr (current_slot, s1) \<Rightarrow>
                  (let filled_slots = get_filled_slots s1;
                       selected_slots = select_slots c u intent_name filled_slots
                   in if selected_slots = [] \<and> truthy current_slot
                         \<and> truthy (extract_slot_value c u (the current_slot) intent_name)
                      then after_fill
                             (fill_and_confirm s1 (the current_slot)
                                (the (extract_slot_value c u (the current_slot) intent_name)))
                             intent_name
                      else if selected_slots = [] \<and> truthy current_slot
                      then retry_current_slot s1 (the current_slot) intent_name
                      else (let extracted_values =
                                  extract_selected c u intent_name filled_slots selected_slots []
                            in if extracted_values \<noteq> []
                               then after_fill (fill_extracted s1 extracted_values) intent_name
                               else if truthy current_slot
                                       \<and> the current_slot \<notin> set selected_slots
                                       \<and> truthy (extract_slot_value c u (the current_slot)
                                                   intent_name)
                               then after_fill
                                      (fill_and_confirm s1 (the current_slot)
                                         (the (extract_slot_value c u (the current_slot)
                                                 intent_name)))
                                      intent_name
                               else if truthy current_slot
                               then retry_current_slot s1 (the current_slot) intent_name
                               else Inr (\<lparr>response_text = ''Processing...'',
                                           action = ''processing'', metadata = []\<rparr>,
                                         s1))))"

subsection \<open>Confirming a normalization\<close>

definition affirmative_lexicon :: "string list" where
  "affirmative_lexicon =
     [''yes'', ''yeah'', ''yep'', ''sure'', ''ok'', ''okay'', ''confirm'', ''correct'']"

definition negative_lexicon :: "string list" where
  "negative_lexicon = [''no'', ''nope'', ''nah'', ''incorrect'', ''wrong'']"

text \<open>The keys of the pending normalization, when the dictionary is there and not empty
  (\<^verbatim>\<open>if pending_normalization: for slot_name in list(pending_normalization.keys())\<close>).\<close>

definition pending_keys :: "FSMStateData \<Rightarrow> string list" where
  "pending_keys s = (case pending_normalization s of None \<Rightarrow> [] | Some d \<Rightarrow> map fst d)"

definition confirm_pending :: "FSMStateData \<Rightarrow> FSMStateData" where
  "confirm_pending s = foldl (\<lambda>st slot_name. snd (confirm_slot st slot_name)) s (pending_keys s)"

definition reject_pending :: "FSMStateData \<Rightarrow> FSMStateData" where
  "reject_pending s = foldl (\<lambda>st slot_name. reject_normalization st slot_name) s (pending_keys s)"

definition handle_normalization_confirmation ::
  "FSMStateData \<Rightarrow> string \<Rightarrow> error + TurnResult \<times> FSMStateData" where
  "handle_normalization_confirmation s u =
     (let utterance_lower = strip (lower u)
      in if utterance_lower \<in> set affirmative_lexicon
         then (case advance_state (confirm_pending s) of
                 Inl e \<Rightarrow> Inl e
               | Inr s' \<Rightarrow> start_slot_collection s')
         else if utterance_lower \<in> set negative_lexicon
         then (case advance_state (reject_pending s) of
                 Inl e \<Rightarrow> Inl e
               | Inr s' \<Rightarrow> start_slot_collection s')
         else (case pending_normalization s of
                 Some ((slot_name, proposed_value) # rest) \<Rightarrow>
                   Inr (\<lparr>response_text =
                           ''I proposed: '' @ proposed_value @ ''. Is this correct? (yes/no)'',
                         action = ''confirm_normalization'',
                         metadata = [(''slot'', MStr slot_name),
                                     (''proposed_value'', MStr proposed_value)]\<rparr>,
                        s)
               | _ \<Rightarrow>
                   Inr (\<lparr>response_text = ''Please confirm: yes or no?'',
                         action = ''confirm_normalization'', metadata = []\<rparr>,
                        s)))"

subsection \<open>One turn\<close>

definition execution_lexicon :: "string list" where
  "execution_lexicon =
     [''yes'', ''yeah'', ''yep'', ''sure'', ''ok'', ''okay'', ''proceed'', ''go ahead'', ''execute'',
      ''submit'']"

definition is_execution_confirmation :: "string \<Rightarrow> bool" where
  "is_execution_confirmation u =
     (let utterance_lower = strip (lower u)
      in list_ex (\<lambda>conf. sublist conf utterance_lower) execution_lexicon)"

definition meta_opt :: "string option \<Rightarrow> MetaValue" where
  "meta_opt v = (case v of None \<Rightarrow> MNone | Some x \<Rightarrow> MStr x)"

definition process_user_input ::
  "Collaborators \<Rightarrow> FSMStateData \<Rightarrow> string \<Rightarrow> error + TurnResult \<times> FSMStateData" where
  "process_user_input c s u =
     (if u = [] \<or> strip u = []
      then Inr (\<lparr>response_text = ''I didn't catch that. Could you please repeat?'',
                  action = ''clarify'', metadata = []\<rparr>, s)
      else if current_state s = TERMINATED
      then Inr (\<lparr>response_text = ''This conversation has been terminated.'',
                  action = ''terminated'', metadata = []\<rparr>, s)
      else if current_state s \<in> set [INIT, GENERAL_CHAT]
      then (let detected_intent = detect_intent c u
            in if truthy detected_intent
               then (let (intent_set, s') = set_active_intent s (the detected_intent)
                     in if \<not> intent_set
                        then Inr (\<lparr>response_text =
                                      ''I've noted your request for ''
                                      @ replace_underscores (the detected_intent)
                                      @ ''. I'll help you with that once we finish the current task.'',
                                    action = ''intent_queued'',
                                    metadata = [(''queued_intent'', MStr (the detected_intent))]\<rparr>,
                                  s')
                        else start_slot_collection s')
               else Inr (\<lparr>response_text = [], action = ''general_chat'',
                           metadata = [(''user_utterance'', MStr u)]\<rparr>,
                         if current_state s = INIT then set_general_chat s else s))
      else if current_state s = CONFIRMING_NORMALIZATION
      then handle_normalization_confirmation s u
      else if current_state s = COLLECTING_SLOT
      then handle_slot_collection c s u
      else if current_state s = READY_TO_EXECUTE
      then (if is_execution_confirmation u
            then Inr (\<lparr>response_text = ''Executing your request...'',
                        action = ''execute_action'',
                        metadata = [(''intent'', meta_opt (active_intent s)),
                                    (''slots'', MSlots (get_filled_slots s))]\<rparr>,
                      s)
            else handle_slot_collection c s u)
      else Inr (\<lparr>response_text = ''I'm processing your request. Please wait.'',
                  action = ''processing'', metadata = []\<rparr>, s))"

text \<open>\<^verbatim>\<open>propose_normalization\<close>, with which the caller opens a confirmation round.\<close>

definition propose_normalization :: "FSMStateData \<Rightarrow> string \<Rightarrow> string \<Rightarrow> FSMStateData" where
  "propose_normalization s slot_name proposed_value =
     transition_to (set_pending_normalization s slot_name proposed_value) CONFIRMING_NORMALIZATION"

text \<open>Several turns in a row, with the answers collected.\<close>

fun run_turns ::
  "Collaborators \<Rightarrow> FSMStateData \<Rightarrow> string list \<Rightarrow> error + TurnResult list \<times> FSMStateData" where
  "run_turns c s [] = Inr ([], s)"
| "run_turns c s (u # us) =
     (case process_user_input c s u of
        Inl e \<Rightarrow> Inl e
      | Inr (r, s') \<Rightarrow>
          (case run_turns c s' us of
             Inl e \<Rightarrow> Inl e
           | Inr (rs, s'') \<Rightarrow> Inr (r # rs, s'')))"

section \<open>Auxiliary notions for the statements\<close>

text \<open>Completing the running task \<open>k\<close> times in a row.\<close>

fun complete_actions :: "nat \<Rightarrow> FSMStateData \<Rightarrow> error + FSMStateData" where
  "complete_actions 0 s = Inr s"
| "complete_actions (Suc k) s =
     (case complete_action s of Inl e \<Rightarrow> Inl e | Inr s' \<Rightarrow> complete_actions k s')"

text \<open>The slot \<open>n\<close> has a confirmed record that stores \<open>v\<close>.\<close>

definition holds_confirmed :: "string \<Rightarrow> string \<Rightarrow> FSMStateData \<Rightarrow> bool" where
  "holds_confirmed n v s =
     (case map_of (slot_values s) n of
        None \<Rightarrow> False
      | Some slot \<Rightarrow> confirmed slot \<and> slot_value slot = v)"

text \<open>Example states: a conversation that has just started the time-off task, and the
  same conversation after the employee's name was stored unconfirmed.\<close>

definition time_off_started :: FSMStateData where
  "time_off_started = snd (set_active_intent (init_state None) ''request_time_off'')"

definition name_filled :: FSMStateData where
  "name_filled = snd (fill_slot time_off_started ''employee_name'' ''John Smith'' False)"

text \<open>The retry counter the machine holds for a slot (\<^verbatim>\<open>slot_retry_counts.get(n, 0)\<close>).\<close>

definition retries_of :: "FSMStateData \<Rightarrow> string \<Rightarrow> int" where
  "retries_of s n = dict_get (slot_retry_counts s) n 0"


text \<open>
  Collaborators that recognise the request for time off and understand nothing else:
  the selector never selects a slot and the extractor never finds a value.
\<close>

definition deaf_collaborators :: Collaborators where
  "deaf_collaborators =
     \<lparr>detect_intent = (\<lambda>u. if u = ''I need time off'' then Some ''request_time_off'' else None),
      select_slots = (\<lambda>u intent_name filled_slots. []),
      extract_slot_value = (\<lambda>u slot_name intent_name. None)\<rparr>"

text \<open>The time-off task with every slot but the last confirmed, and the last one asked.\<close>

definition last_slot_open :: FSMStateData where
  "last_slot_open =
     set_current_slot
       (fill_extracted time_off_started
          [(''employee_name'', ''John Smith''), (''start_date'', ''2025-01-13''),
           (''end_date'', ''2025-01-17''), (''time_off_type'', ''vacation''),
           (''reason'', ''family visit'')])
       (Some ''notify_manager'')"

text \<open>The action of each answer of a run, with the slot its metadata names.\<close>

definition answers :: "(error + TurnResult list \<times> FSMStateData) \<Rightarrow> (string \<times> MetaValue option) list" where
  "answers r = (case r of Inl e \<Rightarrow> [] | Inr (rs, s) \<Rightarrow> map (\<lambda>x. (action x, map_of (metadata x) ''slot'')) rs)"

text \<open>The actions a slot-collection turn can answer with.\<close>

definition collection_action :: "string \<Rightarrow> bool" where
  "collection_action a =
     (a \<in> set [''error'', ''ready_to_execute'', ''ask_slot'', ''retry_slot'', ''processing''])"

text \<open>The time-off task with all six slots confirmed, in phase \<^verbatim>\<open>READY_TO_EXECUTE\<close>.\<close>

definition ready_for_execution :: FSMStateData where
  "ready_for_execution =
     transition_to (fill_and_confirm last_slot_open ''notify_manager'' ''yes'') READY_TO_EXECUTE"

text \<open>Every slot of the list has a confirmed record.\<close>

definition all_confirmed :: "FSMStateData \<Rightarrow> string list \<Rightarrow> bool" where
  "all_confirmed s names =
     list_all (\<lambda>n. case map_of (slot_values s) n of None \<Rightarrow> False | Some slot \<Rightarrow> confirmed slot) names"

text \<open>What \<^verbatim>\<open>confirm_slot\<close> and \<^verbatim>\<open>reject_normalization\<close> do to the record of a slot.\<close>

definition confirm_record :: "SlotValue \<Rightarrow> SlotValue" where
  "confirm_record slot = slot\<lparr>confirmed := True, needs_confirmation := False\<rparr>"

definition reject_record :: "SlotValue \<Rightarrow> SlotValue" where
  "reject_record slot = slot\<lparr>normalized_value := None, needs_confirmation := False\<rparr>"

text \<open>The time-off task with \<^verbatim>\<open>start_date\<close> stored as ``next Monday'' and the
  normalization \<^verbatim>\<open>2025-01-13\<close> proposed for it.\<close>

definition normalization_pending :: FSMStateData where
  "normalization_pending =
     propose_normalization (snd (fill_slot time_off_started ''start_date'' ''next Monday'' False))
       ''start_date'' ''2025-01-13''"

text \<open>What a turn answered and left: the action, the phase, the pending normalization
  and the record of one slot.\<close>

definition turn_summary ::
  "(error + TurnResult \<times> FSMStateData) \<Rightarrow> string
   \<Rightarrow> (string \<times> FSMState \<times> (string \<times> string) list option \<times> SlotValue option) option" where
  "turn_summary res n =
     (case res of
        Inl e \<Rightarrow> None
      | Inr (r, s') \<Rightarrow>
          Some (action r, current_state s', pending_normalization s', map_of (slot_values s') n))"

section \<open>Properties\<close>

text \<open>The definitions that evaluate a call on a concrete state.\<close>

lemmas fsm_eval =
  init_state_def set_active_intent_def transition_to_def fill_slot_def confirm_slot_def
  dict_get_def increment_retry_def MAX_RETRIES_def time_off_started_def name_filled_def
  set_general_chat_def reject_normalization_def set_current_slot_def
  set_pending_normalization_def process_slot_collection_def start_action_execution_def
  terminate_def complete_action_def advance_state_def

subsection \<open>Queueing while a task is in progress\<close>

text \<open>
  Claim C6 (single active task). In each of the four task-in-progress phases
  \<^verbatim>\<open>set_active_intent\<close> returns \<^verbatim>\<open>False\<close> and changes nothing but the queue, to which
  the name is appended when it is not there yet; a second call with the same name
  changes nothing at all. In particular the active intent, the phase, the slot records
  and the current-slot marker stay as they were.
\<close>

theorem set_active_intent_queues_while_in_progress:
  assumes "current_state s \<in> {COLLECTING_SLOT, CONFIRMING_NORMALIZATION, READY_TO_EXECUTE,
                               EXECUTING_ACTION}"
  shows "set_active_intent s n =
           (False, s\<lparr>queued_intents :=
                       (if n \<in> set (queued_intents s) then queued_intents s
                        else queued_intents s @ [n])\<rparr>)
         \<and> set_active_intent (snd (set_active_intent s n)) n = (False, snd (set_active_intent s n))
         \<and> active_intent (snd (set_active_intent s n)) = active_intent s
         \<and> current_state (snd (set_active_intent s n)) = current_state s
         \<and> slot_values (snd (set_active_intent s n)) = slot_values s
         \<and> current_slot_being_collected (snd (set_active_intent s n)) = current_slot_being_collected s"
  using assms by (auto simp: set_active_intent_def)

theorem set_active_intent_queues_while_in_progress_witness:
  "current_state time_off_started \<in> {COLLECTING_SLOT, CONFIRMING_NORMALIZATION, READY_TO_EXECUTE,
                               EXECUTING_ACTION}
   \<and> set_active_intent time_off_started ''schedule_meeting'' =
           (False, time_off_started\<lparr>queued_intents := [''schedule_meeting'']\<rparr>)
   \<and> set_active_intent (time_off_started\<lparr>queued_intents := [''schedule_meeting'']\<rparr>) ''schedule_meeting''
       = (False, time_off_started\<lparr>queued_intents := [''schedule_meeting'']\<rparr>)
   \<and> active_intent (snd (set_active_intent time_off_started ''schedule_meeting'')) = Some ''request_time_off''"
  using set_active_intent_queues_while_in_progress [of time_off_started "''schedule_meeting''"]
  by (simp add: fsm_eval)

lemma complete_action_dequeues:
  "queued_intents s = x # rest \<Longrightarrow>
   complete_action s =
     Inr (s\<lparr>queued_intents := rest, active_intent := Some x, slot_values := [],
            slot_retry_counts := [], current_slot_being_collected := None,
            pending_normalization := None, current_state := COLLECTING_SLOT\<rparr>)"
  by (simp add: complete_action_def advance_state_def transition_to_def set_active_intent_def)

lemma complete_actions_reach_last:
  "queued_intents s = q @ [n] \<Longrightarrow>
   \<exists>s'. complete_actions (Suc (length q)) s = Inr s' \<and> active_intent s' = Some n
        \<and> slot_values s' = [] \<and> slot_retry_counts s' = []
        \<and> current_slot_being_collected s' = None \<and> pending_normalization s' = None
        \<and> current_state s' = COLLECTING_SLOT \<and> queued_intents s' = []"
proof (induction q arbitrary: s)
  case Nil
  then show ?case by (simp add: complete_action_dequeues)
next
  case (Cons x q)
  have step: "complete_action s =
     Inr (s\<lparr>queued_intents := q @ [n], active_intent := Some x, slot_values := [],
            slot_retry_counts := [], current_slot_being_collected := None,
            pending_normalization := None, current_state := COLLECTING_SLOT\<rparr>)"
    using Cons.prems by (simp add: complete_action_dequeues)
  show ?case
    using Cons.IH [of "s\<lparr>queued_intents := q @ [n], active_intent := Some x, slot_values := [],
            slot_retry_counts := [], current_slot_being_collected := None,
            pending_normalization := None, current_state := COLLECTING_SLOT\<rparr>"]
    by (simp add: step)
qed

text \<open>
  Claim C10 (the active task can queue itself). The queue is checked for the name, the
  active task is not: naming the active task while it is in progress appends it to the
  queue. Completing the tasks ahead of it and then the queued copy makes
  \<^verbatim>\<open>advance_state\<close> take it from the queue and start it again with empty slot records,
  empty retry counters, no current slot and no pending normalization.
\<close>

theorem active_intent_requeued_and_restarted:
  assumes "current_state s \<in> {COLLECTING_SLOT, CONFIRMING_NORMALIZATION, READY_TO_EXECUTE,
                               EXECUTING_ACTION}"
    and "active_intent s = Some n"
    and "n \<notin> set (queued_intents s)"
  shows "set_active_intent s n = (False, s\<lparr>queued_intents := queued_intents s @ [n]\<rparr>)
         \<and> (\<exists>s'. complete_actions (Suc (length (queued_intents s))) (snd (set_active_intent s n)) = Inr s'
                \<and> active_intent s' = Some n \<and> slot_values s' = [] \<and> slot_retry_counts s' = []
                \<and> current_slot_being_collected s' = None \<and> pending_normalization s' = None
                \<and> current_state s' = COLLECTING_SLOT \<and> queued_intents s' = [])"
proof -
  have q: "set_active_intent s n = (False, s\<lparr>queued_intents := queued_intents s @ [n]\<rparr>)"
    using assms by (auto simp: set_active_intent_def)
  show ?thesis
    using complete_actions_reach_last [of "s\<lparr>queued_intents := queued_intents s @ [n]\<rparr>" "queued_intents s" n]
    by (simp add: q)
qed

theorem active_intent_requeued_and_restarted_witness:
  "current_state name_filled \<in> {COLLECTING_SLOT, CONFIRMING_NORMALIZATION, READY_TO_EXECUTE,
                               EXECUTING_ACTION}
   \<and> active_intent name_filled = Some ''request_time_off''
   \<and> ''request_time_off'' \<notin> set (queued_intents name_filled)
   \<and> set_active_intent name_filled ''request_time_off''
       = (False, name_filled\<lparr>queued_intents := [''request_time_off'']\<rparr>)
   \<and> (\<exists>s'. complete_actions 1 (name_filled\<lparr>queued_intents := [''request_time_off'']\<rparr>) = Inr s'
          \<and> active_intent s' = Some ''request_time_off'' \<and> slot_values s' = []
          \<and> current_state s' = COLLECTING_SLOT \<and> queued_intents s' = [])"
  using active_intent_requeued_and_restarted [of name_filled "''request_time_off''"]
  by (simp add: fsm_eval)

subsection \<open>Confirmed slots\<close>

lemma map_of_map_entry_same:
  "map_of (AList.map_entry k f xs) k = map_option f (map_of xs k)"
  by (simp add: map_of_map_entry split: option.splits)

lemma map_of_map_entry_other:
  "k \<noteq> n \<Longrightarrow> map_of (AList.map_entry k f xs) n = map_of xs n"
  by (simp add: map_of_map_entry split: option.splits)

lemma map_of_map_entry_cases:
  "map_of (AList.map_entry k f xs) n = (if k = n then map_option f (map_of xs n) else map_of xs n)"
  by (simp add: map_of_map_entry_same map_of_map_entry_other)

lemma fill_slot_holds:
  "holds_confirmed n v s \<Longrightarrow> holds_confirmed n v (snd (fill_slot s m w c))"
  by (auto simp: holds_confirmed_def fill_slot_def update_conv' split: option.splits)

lemma confirm_slot_holds:
  "holds_confirmed n v s \<Longrightarrow> holds_confirmed n v (snd (confirm_slot s m))"
  by (auto simp: holds_confirmed_def confirm_slot_def map_of_map_entry_cases split: option.splits)

lemma reject_normalization_holds:
  "holds_confirmed n v s \<Longrightarrow> holds_confirmed n v (reject_normalization s m)"
  by (auto simp: holds_confirmed_def reject_normalization_def map_of_map_entry_cases split: option.splits)

lemma increment_retry_holds:
  "holds_confirmed n v s \<Longrightarrow> holds_confirmed n v (snd (increment_retry s m))"
  by (auto simp: holds_confirmed_def increment_retry_def Let_def map_of_map_entry_cases split: option.splits)

lemma set_pending_normalization_holds:
  "holds_confirmed n v s \<Longrightarrow> holds_confirmed n v (set_pending_normalization s m w)"
  by (auto simp: holds_confirmed_def set_pending_normalization_def map_of_map_entry_cases split: option.splits)

lemma process_slot_collection_holds:
  "holds_confirmed n v s \<Longrightarrow> holds_confirmed n v (snd (process_slot_collection s m w))"
  using increment_retry_holds [of n v s m] fill_slot_holds [of n v s m "the w" False]
  by (auto simp: process_slot_collection_def split: prod.splits)

lemma advance_state_slot_values:
  "advance_state s = Inr s' \<Longrightarrow> \<not> (current_state s = COMPLETED \<and> queued_intents s \<noteq> [])
   \<Longrightarrow> slot_values s' = slot_values s"
  unfolding advance_state_def transition_to_def
  by (cases "current_state s")
     (auto split: if_splits sum.splits bool.splits option.splits list.splits)

lemma apply_op_holds:
  assumes "holds_confirmed n v s" and "\<not> starts_task op s" and "apply_op op s = Inr s'"
  shows "holds_confirmed n v s'"
proof (cases op)
  case (OpSetActiveIntent m)
  then show ?thesis using assms
    by (auto simp: set_active_intent_def holds_confirmed_def split: if_splits)
next
  case OpSetGeneralChat
  then show ?thesis using assms
    by (auto simp: set_general_chat_def transition_to_def holds_confirmed_def)
next
  case (OpFillSlot m w c)
  then show ?thesis using assms by (auto simp: fill_slot_holds)
next
  case (OpConfirmSlot m)
  then show ?thesis using assms by (auto simp: confirm_slot_holds)
next
  case (OpRejectNormalization m)
  then show ?thesis using assms by (auto simp: reject_normalization_holds)
next
  case (OpIncrementRetry m)
  then show ?thesis using assms by (auto simp: increment_retry_holds)
next
  case (OpSetCurrentSlot m)
  then show ?thesis using assms by (auto simp: set_current_slot_def holds_confirmed_def)
next
  case (OpSetPendingNormalization m w)
  then show ?thesis using assms by (auto simp: set_pending_normalization_holds)
next
  case (OpTransitionTo st)
  then show ?thesis using assms by (auto simp: transition_to_def holds_confirmed_def)
next
  case (OpProcessSlotCollection m w)
  then show ?thesis using assms by (auto simp: process_slot_collection_holds)
next
  case OpAdvanceState
  then show ?thesis using assms advance_state_slot_values [of s s']
    by (simp add: holds_confirmed_def)
next
  case OpStartActionExecution
  then show ?thesis using assms
    by (auto simp: start_action_execution_def transition_to_def holds_confirmed_def)
next
  case OpCompleteAction
  then show ?thesis using assms advance_state_slot_values [of "transition_to s COMPLETED" s']
    by (simp add: complete_action_def holds_confirmed_def transition_to_def)
next
  case OpTerminate
  then show ?thesis using assms by (auto simp: terminate_def transition_to_def holds_confirmed_def)
qed

lemma run_in_task_holds:
  "holds_confirmed n v s \<Longrightarrow> run_in_task ops s = Some s' \<Longrightarrow> holds_confirmed n v s'"
proof (induction ops arbitrary: s)
  case Nil
  then show ?case by simp
next
  case (Cons op ops)
  then show ?case
    by (auto split: if_splits sum.splits dest: apply_op_holds)
qed

lemma in_keys_map_of: "n \<in> set (map fst xs) \<Longrightarrow> \<exists>v. map_of xs n = Some v"
  by (induction xs) auto

lemma confirm_slot_establishes:
  "confirm_slot s n = (True, s1) \<Longrightarrow> \<exists>v. holds_confirmed n v s1"
  using in_keys_map_of [of n "slot_values s"]
  by (auto simp: confirm_slot_def holds_confirmed_def map_of_map_entry_same
           split: if_splits)

text \<open>
  Claim C1 (confirmed-slot immutability). Once \<^verbatim>\<open>confirm_slot\<close> has returned
  \<^verbatim>\<open>True\<close> for a slot, then after any sequence of calls of the state machine inside
  the same task instance, \<^verbatim>\<open>fill_slot\<close> for that slot returns \<^verbatim>\<open>False\<close> for every
  value and every confirmed flag and leaves the state as it is; the stored value is the
  one that was confirmed and the record stays confirmed.
\<close>

theorem confirmed_slot_immutable:
  assumes "confirm_slot s n = (True, s1)" and "run_in_task ops s1 = Some s2"
  shows "fill_slot s2 n v c = (False, s2)
         \<and> map_option slot_value (map_of (slot_values s2) n)
             = map_option slot_value (map_of (slot_values s1) n)
         \<and> map_option confirmed (map_of (slot_values s1) n) = Some True
         \<and> map_option confirmed (map_of (slot_values s2) n) = Some True
         \<and> map_option slot_value (map_of (slot_values (snd (fill_slot s2 n v c))) n)
             = map_option slot_value (map_of (slot_values s1) n)"
proof -
  obtain w where w: "holds_confirmed n w s1"
    using confirm_slot_establishes [OF assms(1)] by blast
  have w2: "holds_confirmed n w s2"
    using run_in_task_holds [OF w assms(2)] .
  have "fill_slot s2 n v c = (False, s2)"
    using w2 by (auto simp: fill_slot_def holds_confirmed_def split: option.splits)
  then show ?thesis
    using w w2 by (auto simp: holds_confirmed_def split: option.splits)
qed

theorem confirmed_slot_immutable_witness:
  "confirm_slot name_filled ''employee_name'' = (True, snd (confirm_slot name_filled ''employee_name''))
   \<and> run_in_task [OpIncrementRetry ''employee_name'', OpSetActiveIntent ''schedule_meeting'',
                   OpFillSlot ''employee_name'' ''Bob'' True, OpAdvanceState]
         (snd (confirm_slot name_filled ''employee_name''))
       = Some (the (run_in_task [OpIncrementRetry ''employee_name'', OpSetActiveIntent ''schedule_meeting'',
                   OpFillSlot ''employee_name'' ''Bob'' True, OpAdvanceState]
         (snd (confirm_slot name_filled ''employee_name''))))
   \<and> fst (fill_slot (the (run_in_task [OpIncrementRetry ''employee_name'', OpSetActiveIntent ''schedule_meeting'',
                   OpFillSlot ''employee_name'' ''Bob'' True, OpAdvanceState]
         (snd (confirm_slot name_filled ''employee_name'')))) ''employee_name'' ''Alice'' False) = False
   \<and> map_option slot_value (map_of (slot_values (the (run_in_task [OpIncrementRetry ''employee_name'', OpSetActiveIntent ''schedule_meeting'',
                   OpFillSlot ''employee_name'' ''Bob'' True, OpAdvanceState]
         (snd (confirm_slot name_filled ''employee_name''))))) ''employee_name'') = Some ''John Smith''"
proof -
  have h1: "confirm_slot name_filled ''employee_name'' = (True, snd (confirm_slot name_filled ''employee_name''))"
    by (simp add: fsm_eval)
  have h2: "run_in_task [OpIncrementRetry ''employee_name'', OpSetActiveIntent ''schedule_meeting'',
                   OpFillSlot ''employee_name'' ''Bob'' True, OpAdvanceState]
         (snd (confirm_slot name_filled ''employee_name''))
       = Some (the (run_in_task [OpIncrementRetry ''employee_name'', OpSetActiveIntent ''schedule_meeting'',
                   OpFillSlot ''employee_name'' ''Bob'' True, OpAdvanceState]
         (snd (confirm_slot name_filled ''employee_name''))))"
    by (simp add: fsm_eval check_all_slots_filled_def get_slot_names_def get_schema_def TASK_SCHEMAS_def)
  have h3: "map_option slot_value (map_of (slot_values (snd (confirm_slot name_filled ''employee_name''))) ''employee_name'') = Some ''John Smith''"
    by (simp add: fsm_eval)
  show ?thesis
    using confirmed_slot_immutable [OF h1 h2, of "''Alice''" False] h1 h2 h3 by simp
qed

subsection \<open>Retry counters\<close>

lemma retries_increment_retry:
  "retries_of (snd (increment_retry s m)) n = retries_of s n + (if m = n then 1 else 0)"
  by (simp add: retries_of_def increment_retry_def Let_def dict_get_def update_conv')

lemma retries_process_slot_collection:
  "retries_of (snd (process_slot_collection s m v)) n
     = retries_of s n + (if m = n \<and> \<not> truthy v then 1 else 0)"
proof (cases "truthy v")
  case True
  then show ?thesis
    by (simp add: process_slot_collection_def retries_of_def fill_slot_def)
next
  case False
  then show ?thesis
    using retries_increment_retry [of s m n]
    by (auto simp: process_slot_collection_def split: prod.splits)
qed

lemma advance_state_retry_counts:
  "advance_state s = Inr s' \<Longrightarrow> \<not> (current_state s = COMPLETED \<and> queued_intents s \<noteq> [])
   \<Longrightarrow> slot_retry_counts s' = slot_retry_counts s"
  unfolding advance_state_def transition_to_def
  by (cases "current_state s")
     (auto split: if_splits sum.splits bool.splits option.splits list.splits)

lemma apply_op_retries:
  assumes "\<not> starts_task op s" and "apply_op op s = Inr s'"
  shows "retries_of s' n = retries_of s n + (if counts_retry n op then 1 else 0)"
proof (cases op)
  case (OpSetActiveIntent m)
  then show ?thesis using assms
    by (auto simp: set_active_intent_def retries_of_def split: if_splits)
next
  case OpSetGeneralChat
  then show ?thesis using assms
    by (auto simp: set_general_chat_def transition_to_def retries_of_def)
next
  case (OpFillSlot m w c)
  then show ?thesis using assms by (auto simp: fill_slot_def retries_of_def)
next
  case (OpConfirmSlot m)
  then show ?thesis using assms by (auto simp: confirm_slot_def retries_of_def)
next
  case (OpRejectNormalization m)
  then show ?thesis using assms by (auto simp: reject_normalization_def retries_of_def)
next
  case (OpIncrementRetry m)
  then show ?thesis using assms retries_increment_retry [of s m n] by auto
next
  case (OpSetCurrentSlot m)
  then show ?thesis using assms by (auto simp: set_current_slot_def retries_of_def)
next
  case (OpSetPendingNormalization m w)
  then show ?thesis using assms by (auto simp: set_pending_normalization_def retries_of_def)
next
  case (OpTransitionTo st)
  then show ?thesis using assms by (auto simp: transition_to_def retries_of_def)
next
  case (OpProcessSlotCollection m w)
  then show ?thesis using assms retries_process_slot_collection [of s m w n] by auto
next
  case OpAdvanceState
  then show ?thesis using assms advance_state_retry_counts [of s s']
    by (simp add: retries_of_def)
next
  case OpStartActionExecution
  then show ?thesis using assms
    by (auto simp: start_action_execution_def transition_to_def retries_of_def)
next
  case OpCompleteAction
  then show ?thesis using assms advance_state_retry_counts [of "transition_to s COMPLETED" s']
    by (simp add: complete_action_def retries_of_def transition_to_def)
next
  case OpTerminate
  then show ?thesis using assms by (auto simp: terminate_def transition_to_def retries_of_def)
qed

lemma run_in_task_retries:
  "run_in_task ops s = Some s' \<Longrightarrow>
   retries_of s' n = retries_of s n + int (length (filter (counts_retry n) ops))"
proof (induction ops arbitrary: s)
  case Nil
  then show ?case by simp
next
  case (Cons op ops)
  from Cons.prems obtain s1 where
    ns: "\<not> starts_task op s" and ap: "apply_op op s = Inr s1" and rest: "run_in_task ops s1 = Some s'"
    by (auto split: if_splits sum.splits)
  show ?case
    using Cons.IH [OF rest] apply_op_retries [OF ns ap, of n] by simp
qed

text \<open>
  Claim C4 (retry bound). A task instance starts with \<^verbatim>\<open>set_active_intent\<close> returning
  \<^verbatim>\<open>True\<close>. After any calls inside that task instance, \<^verbatim>\<open>increment_retry\<close> for a
  slot returns \<^verbatim>\<open>True\<close> exactly when fewer than two failed attempts were counted for
  that slot before: \<^verbatim>\<open>True\<close> on the first and the second call, \<^verbatim>\<open>False\<close> on the third
  and on every later one. Nothing is assumed about the slot records, so it holds whether
  or not the slot has one; a new task instance starts the count again.
\<close>

theorem retry_bound:
  assumes "set_active_intent s0 task = (True, s1)" and "run_in_task ops s1 = Some s2"
  shows "fst (increment_retry s2 n) = (length (filter (counts_retry n) ops) < 2)"
proof -
  have "retries_of s1 n = 0"
    using assms(1) by (auto simp: set_active_intent_def retries_of_def dict_get_def transition_to_def split: if_splits)
  then have "retries_of s2 n = int (length (filter (counts_retry n) ops))"
    using run_in_task_retries [OF assms(2), of n] by simp
  then show ?thesis
    by (simp add: increment_retry_def Let_def MAX_RETRIES_def retries_of_def)
qed

theorem retry_bound_witness:
  "set_active_intent (init_state None) ''request_time_off'' = (True, time_off_started)
   \<and> run_in_task [OpIncrementRetry ''reason'', OpFillSlot ''reason'' ''rest'' False,
                   OpProcessSlotCollection ''reason'' None] time_off_started
       = Some (the (run_in_task [OpIncrementRetry ''reason'', OpFillSlot ''reason'' ''rest'' False,
                   OpProcessSlotCollection ''reason'' None] time_off_started))
   \<and> fst (increment_retry time_off_started ''reason'')
   \<and> \<not> fst (increment_retry
              (the (run_in_task [OpIncrementRetry ''reason'', OpFillSlot ''reason'' ''rest'' False,
                   OpProcessSlotCollection ''reason'' None] time_off_started)) ''reason'')"
proof -
  have h1: "set_active_intent (init_state None) ''request_time_off'' = (True, time_off_started)"
    by (simp add: fsm_eval)
  have h2: "run_in_task [OpIncrementRetry ''reason'', OpFillSlot ''reason'' ''rest'' False,
                   OpProcessSlotCollection ''reason'' None] time_off_started
       = Some (the (run_in_task [OpIncrementRetry ''reason'', OpFillSlot ''reason'' ''rest'' False,
                   OpProcessSlotCollection ''reason'' None] time_off_started))"
    by (simp add: fsm_eval)
  have h0: "run_in_task [] time_off_started = Some time_off_started"
    by simp
  show ?thesis
    using retry_bound [OF h1 h2, of "''reason''"] retry_bound [OF h1 h0, of "''reason''"] h1 h2
    by simp
qed

subsection \<open>The next missing slot\<close>

lemma get_slot_names_empty: "get_slot_names [] = Inl ValueError"
  by (simp add: get_slot_names_def get_schema_def TASK_SCHEMAS_def)

lemma first_of_filter: "(case filter P xs of [] \<Rightarrow> None | x # _ \<Rightarrow> Some x) = List.find P xs"
  by (induction xs) auto

lemma get_next_missing_slot_find:
  assumes "get_slot_names task = Inr names"
  shows "get_next_missing_slot s task = Inr (List.find (\<lambda>x. map_of (slot_values s) x = None) names)"
proof -
  have ne: "task \<noteq> []" using assms get_slot_names_empty by auto
  have "filter (\<lambda>x. x \<notin> set (map fst (slot_values s))) names
        = filter (\<lambda>x. map_of (slot_values s) x = None) names"
    by (simp add: map_of_eq_None_iff)
  then show ?thesis
    using ne assms first_of_filter [of "\<lambda>x. map_of (slot_values s) x = None" names]
    by (simp add: get_next_missing_slot_def get_missing_slots_def)
qed




subsection \<open>Snapshots\<close>

lemma FSMState_value_roundtrip: "FSMState_of_value (FSMState_value st) = Inr st"
  by (cases st) (simp_all add: FSMState_of_value_def)

lemma slot_dict_roundtrip: "slot_of_dict (slot_to_dict slot) = slot"
  by (simp add: slot_of_dict_def slot_to_dict_def)

lemma slot_values_roundtrip:
  "map ((\<lambda>(n, slot_data). (n, slot_of_dict slot_data)) \<circ> (\<lambda>(n, slot). (n, slot_to_dict slot))) xs = xs"
  by (induction xs) (auto simp: slot_dict_roundtrip)

lemma load_all_fields:
  "(t::FSMStateData)\<lparr>current_state := current_state s, active_intent := active_intent s,
      queued_intents := queued_intents s,
      current_slot_being_collected := current_slot_being_collected s,
      slot_retry_counts := slot_retry_counts s,
      conversation_id := conversation_id s, pending_normalization := pending_normalization s,
      slot_values := slot_values s\<rparr> = s"
  by (cases s, cases t) simp

lemma snapshot_roundtrip_if:
  assumes "pending_normalization s \<noteq> Some []"
  shows "load_state_snapshot t (get_state_snapshot s) = Inr s"
proof -
  have p: "(case pending_normalization s of Some (p # ps) \<Rightarrow> Some (p # ps) | _ \<Rightarrow> None)
           = pending_normalization s"
    using assms by (auto split: option.splits list.splits)
  show ?thesis
    using load_all_fields [of t s]
    by (simp add: load_state_snapshot_def get_state_snapshot_def FSMState_value_roundtrip
          slot_values_roundtrip p)
qed

lemma advance_state_pending:
  "advance_state s = Inr s' \<Longrightarrow> pending_normalization s \<noteq> Some []
   \<Longrightarrow> pending_normalization s' \<noteq> Some []"
  unfolding advance_state_def transition_to_def set_active_intent_def
  by (cases "current_state s")
     (auto split: if_splits sum.splits bool.splits option.splits list.splits)

lemma apply_op_pending:
  assumes "pending_normalization s \<noteq> Some []" and "apply_op op s = Inr s'"
  shows "pending_normalization s' \<noteq> Some []"
proof (cases op)
  case (OpSetActiveIntent m)
  then show ?thesis using assms
    by (auto simp: set_active_intent_def transition_to_def split: if_splits)
next
  case OpSetGeneralChat
  then show ?thesis using assms
    by (auto simp: set_general_chat_def transition_to_def)
next
  case (OpFillSlot m w c)
  then show ?thesis using assms by (auto simp: fill_slot_def split: if_splits)
next
  case (OpConfirmSlot m)
  then show ?thesis using assms by (auto simp: confirm_slot_def split: if_splits)
next
  case (OpRejectNormalization m)
  then show ?thesis using assms by (auto simp: reject_normalization_def)
next
  case (OpIncrementRetry m)
  then show ?thesis using assms by (auto simp: increment_retry_def Let_def)
next
  case (OpSetCurrentSlot m)
  then show ?thesis using assms by (auto simp: set_current_slot_def)
next
  case (OpSetPendingNormalization m w)
  then show ?thesis using assms by (auto simp: set_pending_normalization_def)
next
  case (OpTransitionTo st)
  then show ?thesis using assms by (auto simp: transition_to_def)
next
  case (OpProcessSlotCollection m w)
  then show ?thesis using assms
    by (auto simp: process_slot_collection_def increment_retry_def Let_def fill_slot_def
             split: prod.splits if_splits)
next
  case OpAdvanceState
  then show ?thesis using assms advance_state_pending [of s s'] by simp
next
  case OpStartActionExecution
  then show ?thesis using assms
    by (auto simp: start_action_execution_def transition_to_def split: if_splits)
next
  case OpCompleteAction
  then show ?thesis using assms advance_state_pending [of "transition_to s COMPLETED" s']
    by (simp add: complete_action_def transition_to_def)
next
  case OpTerminate
  then show ?thesis using assms by (auto simp: terminate_def transition_to_def)
qed

lemma reachable_pending: "reachable s \<Longrightarrow> pending_normalization s \<noteq> Some []"
proof (induction rule: reachable.induct)
  case (reachable_init cid)
  then show ?case by (simp add: init_state_def)
next
  case (reachable_op s op s')
  then show ?case using apply_op_pending by blast
next
  case (reachable_load s t s')
  then show ?case by (simp add: snapshot_roundtrip_if)
qed

text \<open>
  Claim C5 (snapshot round trip). For every reachable state, loading the snapshot taken
  of it, into any machine, gives that state back: phase, active intent, queue, every slot
  record with its five fields, the retry counters, the current slot, the conversation id
  and the pending normalization. Reachable states never hold an empty pending-normalization
  dictionary, the one value the snapshot would turn into \<^verbatim>\<open>None\<close>.
\<close>

theorem snapshot_round_trip:
  assumes "reachable s"
  shows "load_state_snapshot t (get_state_snapshot s) = Inr s"
  using reachable_pending [OF assms] by (rule snapshot_roundtrip_if)

theorem snapshot_round_trip_witness:
  "reachable name_filled
   \<and> load_state_snapshot (init_state (Some ''other'')) (get_state_snapshot name_filled) = Inr name_filled"
proof -
  have r0: "reachable (init_state None)"
    by (rule reachable_init)
  have r1: "reachable time_off_started"
    using reachable_op [OF r0, of "OpSetActiveIntent ''request_time_off''" time_off_started]
    by (simp add: time_off_started_def)
  have r2: "reachable name_filled"
    using reachable_op [OF r1, of "OpFillSlot ''employee_name'' ''John Smith'' False" name_filled]
    by (simp add: name_filled_def)
  show ?thesis
    using snapshot_round_trip [OF r2, of "init_state (Some ''other'')"] r2 by simp
qed

lemmas dm_eval =
  process_user_input_def handle_slot_collection_def handle_normalization_confirmation_def
  start_slot_collection_def after_fill_def retry_current_slot_def fill_and_confirm_def
  is_execution_confirmation_def strip_def lower_def lower_char_def upper_letters_def lower_letters_def is_space_def
  get_next_missing_slot_def get_missing_slots_def get_slot_names_def get_slot_questions_def
  get_schema_def TASK_SCHEMAS_def get_filled_slots_def check_all_slots_filled_def
  deaf_collaborators_def last_slot_open_def answers_def Let_def

subsection \<open>Termination\<close>

lemma process_user_input_terminated:
  "current_state s = TERMINATED \<Longrightarrow>
   \<exists>r. process_user_input c s u = Inr (r, s) \<and> (action r = ''terminated'' \<or> action r = ''clarify'')"
  by (simp add: process_user_input_def)

lemma run_turns_terminated:
  "current_state s = TERMINATED \<Longrightarrow>
   \<exists>rs. run_turns c s us = Inr (rs, s) \<and> length rs = length us
        \<and> list_all (\<lambda>r. action r = ''terminated'' \<or> action r = ''clarify'') rs"
proof (induction us)
  case Nil
  then show ?case by simp
next
  case (Cons u us)
  obtain r where r: "process_user_input c s u = Inr (r, s)"
      "action r = ''terminated'' \<or> action r = ''clarify''"
    using process_user_input_terminated [OF Cons.prems] by blast
  obtain rs where rs: "run_turns c s us = Inr (rs, s)" "length rs = length us"
      "list_all (\<lambda>r. action r = ''terminated'' \<or> action r = ''clarify'') rs"
    using Cons.IH [OF Cons.prems] by blast
  show ?case using r rs by simp
qed

text \<open>
  Claim C7, as the code has it. In phase \<^verbatim>\<open>TERMINATED\<close>, \<^verbatim>\<open>advance_state\<close> and
  \<^verbatim>\<open>start_action_execution\<close> leave the state as it is, and so does every turn of the
  dialogue manager: any number of utterances is answered with \<^verbatim>\<open>terminated\<close> (or
  \<^verbatim>\<open>clarify\<close> for a blank one) and the state does not change.
\<close>

theorem terminated_is_sink_for_turns:
  assumes "current_state s = TERMINATED"
  shows "advance_state s = Inr s \<and> start_action_execution s = s
         \<and> (\<exists>rs. run_turns c s us = Inr (rs, s) \<and> length rs = length us
                \<and> list_all (\<lambda>r. action r = ''terminated'' \<or> action r = ''clarify'') rs)"
  using assms run_turns_terminated [OF assms, of c us]
  by (simp add: advance_state_def start_action_execution_def)

theorem terminated_is_sink_for_turns_witness:
  "current_state (terminate name_filled) = TERMINATED
   \<and> advance_state (terminate name_filled) = Inr (terminate name_filled)
   \<and> start_action_execution (terminate name_filled) = terminate name_filled
   \<and> (\<exists>rs. run_turns deaf_collaborators (terminate name_filled) [''I need time off'', '' ''] = Inr (rs, terminate name_filled))"
proof -
  have h: "current_state (terminate name_filled) = TERMINATED"
    by (simp add: terminate_def transition_to_def)
  show ?thesis
    using terminated_is_sink_for_turns [OF h, of deaf_collaborators "[''I need time off'', '' '']"] h
    by blast
qed

text \<open>
  Claim C7 as stated fails: the mutators of the state machine have no guard on the
  phase. On a terminated machine \<^verbatim>\<open>fill_slot\<close> returns \<^verbatim>\<open>True\<close> and stores the value,
  \<^verbatim>\<open>set_general_chat\<close> and \<^verbatim>\<open>transition_to\<close> move the phase, and
  \<^verbatim>\<open>set_active_intent\<close> returns \<^verbatim>\<open>True\<close> and moves it to \<^verbatim>\<open>COLLECTING_SLOT\<close>.
\<close>

theorem terminated_state_still_mutable:
  "current_state (terminate time_off_started) = TERMINATED
   \<and> fst (fill_slot (terminate time_off_started) ''employee_name'' ''John Smith'' False)
   \<and> map_option slot_value
        (map_of (slot_values (snd (fill_slot (terminate time_off_started) ''employee_name''
                                      ''John Smith'' False))) ''employee_name'')
      = Some ''John Smith''
   \<and> current_state (set_general_chat (terminate time_off_started)) = GENERAL_CHAT
   \<and> current_state (transition_to (terminate time_off_started) INIT) = INIT
   \<and> fst (set_active_intent (terminate time_off_started) ''schedule_meeting'')
   \<and> current_state (snd (set_active_intent (terminate time_off_started) ''schedule_meeting''))
      = COLLECTING_SLOT"
  by (simp add: fsm_eval)

subsection \<open>Retry exhaustion\<close>

lemma three_failures_first_slot: "answers (run_turns deaf_collaborators (init_state None) [''I need time off'', ''hm'', ''hm'', ''hm'', ''hm''])
   = [(''ask_slot'', Some (MStr ''employee_name'')), (''retry_slot'', Some (MStr ''employee_name'')),
      (''retry_slot'', Some (MStr ''employee_name'')), (''ask_slot'', Some (MStr ''employee_name'')),
      (''ask_slot'', Some (MStr ''employee_name''))]"
  by (simp add: fsm_eval dm_eval)

lemma three_failures_last_slot: "answers (run_turns deaf_collaborators last_slot_open [''maybe'', ''maybe'', ''maybe''])
   = [(''retry_slot'', Some (MStr ''notify_manager'')),
      (''retry_slot'', Some (MStr ''notify_manager'')), (''ask_slot'', Some (MStr ''notify_manager''))]"
  by (simp add: fsm_eval dm_eval)

text \<open>
  Claim C2 on the code. Three failed attempts for \<^verbatim>\<open>employee_name\<close> are answered with
  \<^verbatim>\<open>retry_slot\<close>, \<^verbatim>\<open>retry_slot\<close> and then \<^verbatim>\<open>ask_slot\<close> for \<^verbatim>\<open>employee_name\<close> again,
  and so is the fourth. With every slot but \<^verbatim>\<open>notify_manager\<close> confirmed, the third
  failure for \<^verbatim>\<open>notify_manager\<close> is answered with \<^verbatim>\<open>ask_slot\<close> for
  \<^verbatim>\<open>notify_manager\<close>, not with \<^verbatim>\<open>ready_to_execute\<close>: the exhausted slot has no record,
  so \<^verbatim>\<open>get_next_missing_slot\<close> names it again.
\<close>

theorem retry_exhaustion_asks_same_slot:
  "answers (run_turns deaf_collaborators (init_state None)
              [''I need time off'', ''hm'', ''hm'', ''hm'', ''hm''])
   = [(''ask_slot'', Some (MStr ''employee_name'')), (''retry_slot'', Some (MStr ''employee_name'')),
      (''retry_slot'', Some (MStr ''employee_name'')), (''ask_slot'', Some (MStr ''employee_name'')),
      (''ask_slot'', Some (MStr ''employee_name''))]
   \<and> answers (run_turns deaf_collaborators last_slot_open [''maybe'', ''maybe'', ''maybe''])
   = [(''retry_slot'', Some (MStr ''notify_manager'')),
      (''retry_slot'', Some (MStr ''notify_manager'')), (''ask_slot'', Some (MStr ''notify_manager''))]"
  using three_failures_first_slot three_failures_last_slot by simp

subsection \<open>Confirming the execution\<close>

lemma collection_action_simps:
  "collection_action ''error''" "collection_action ''ready_to_execute''"
  "collection_action ''ask_slot''" "collection_action ''retry_slot''"
  "collection_action ''processing''" "\<not> collection_action ''execute_action''"
  by (simp_all add: collection_action_def)

lemma start_slot_collection_action:
  "start_slot_collection s = Inr (r, s') \<Longrightarrow> collection_action (action r)"
  unfolding start_slot_collection_def Let_def
  by (auto simp: collection_action_simps error_result_def ready_all_result_def
           split: if_splits sum.splits option.splits)

lemma after_fill_action:
  "after_fill s intent_name = Inr (r, s') \<Longrightarrow> collection_action (action r)"
  unfolding after_fill_def
  by (auto simp: collection_action_simps ready_all_result_def
           split: sum.splits bool.splits dest: start_slot_collection_action)

lemma retry_current_slot_action:
  "retry_current_slot s current_slot intent_name = Inr (r, s') \<Longrightarrow> collection_action (action r)"
  unfolding retry_current_slot_def Let_def
  by (auto simp: collection_action_simps ready_result_def
           split: prod.splits collection_result.splits sum.splits option.splits if_splits
           dest: start_slot_collection_action)

lemma handle_slot_collection_action:
  "handle_slot_collection c s u = Inr (r, s') \<Longrightarrow> collection_action (action r)"
  unfolding handle_slot_collection_def Let_def
  by (auto simp: collection_action_simps error_result_def
           split: if_splits sum.splits prod.splits
           dest: after_fill_action retry_current_slot_action)

lemma strip_empty_iff: "strip u = [] \<longleftrightarrow> (\<forall>c \<in> set u. is_space c)"
proof
  assume "strip u = []"
  then have a: "\<forall>c \<in> set (dropWhile is_space u). is_space c"
    by (simp add: strip_def dropWhile_eq_Nil_conv)
  have "dropWhile is_space u = []"
  proof (rule ccontr)
    assume ne: "dropWhile is_space u \<noteq> []"
    then have "\<not> is_space (hd (dropWhile is_space u))"
      by (rule hd_dropWhile)
    moreover have "hd (dropWhile is_space u) \<in> set (dropWhile is_space u)"
      using ne by simp
    ultimately show False using a by blast
  qed
  then show "\<forall>c \<in> set u. is_space c"
    by (simp add: dropWhile_eq_Nil_conv)
next
  assume "\<forall>c \<in> set u. is_space c"
  then show "strip u = []"
    by (auto simp: strip_def dropWhile_eq_Nil_conv dest: set_dropWhileD)
qed

lemma is_space_lower_char: "is_space (lower_char c) = is_space c"
  by (auto simp: lower_char_def upper_letters_def lower_letters_def is_space_def split: option.splits if_splits)

lemma strip_lower_empty: "strip (lower u) = [] \<longleftrightarrow> strip u = []"
  by (simp add: strip_empty_iff lower_def is_space_lower_char)

lemma is_execution_confirmation_sublist:
  "is_execution_confirmation u \<longleftrightarrow> (\<exists>w \<in> set execution_lexicon. sublist w (strip (lower u)))"
  by (simp add: is_execution_confirmation_def list_ex_iff)

lemma is_execution_confirmation_not_blank:
  "is_execution_confirmation u \<Longrightarrow> u \<noteq> [] \<and> strip u \<noteq> []"
proof -
  assume "is_execution_confirmation u"
  then obtain w where w: "w \<in> set execution_lexicon" "sublist w (strip (lower u))"
    using is_execution_confirmation_sublist by blast
  have "w \<noteq> []" using w(1) by (auto simp: execution_lexicon_def)
  then have "strip (lower u) \<noteq> []" using w(2) by auto
  then have "strip u \<noteq> []" by (simp add: strip_lower_empty)
  then show ?thesis by (auto simp: strip_def)
qed

lemma get_filled_slots_set:
  "set (get_filled_slots s) = {(n, slot_value r) |n r. (n, r) \<in> set (slot_values s) \<and> confirmed r}"
  by (auto simp: get_filled_slots_def image_iff)

text \<open>
  Claim C9 (execution confirmation). In phase \<^verbatim>\<open>READY_TO_EXECUTE\<close> an utterance that
  matches the execution lexicon is answered with \<^verbatim>\<open>execute_action\<close>, the active task
  and the confirmed slots (name and value of every confirmed record) in the metadata,
  and the state is not changed. A non-blank utterance that does not match is handled as
  slot input. The answer is \<^verbatim>\<open>execute_action\<close> exactly when the utterance matches.
  Matching is what \<^verbatim>\<open>_is_execution_confirmation\<close> computes: one of the ten entries is
  contained in the lower-cased, stripped utterance.
\<close>

theorem execution_confirmation:
  assumes "current_state s = READY_TO_EXECUTE"
  shows "(is_execution_confirmation u \<longrightarrow>
            process_user_input c s u =
              Inr (\<lparr>response_text = ''Executing your request...'', action = ''execute_action'',
                    metadata = [(''intent'', meta_opt (active_intent s)),
                                (''slots'', MSlots (get_filled_slots s))]\<rparr>, s))
         \<and> set (get_filled_slots s)
             = {(n, slot_value r) |n r. (n, r) \<in> set (slot_values s) \<and> confirmed r}
         \<and> (\<not> is_execution_confirmation u \<longrightarrow> strip u \<noteq> [] \<longrightarrow>
               process_user_input c s u = handle_slot_collection c s u)
         \<and> (\<forall>r s'. process_user_input c s u = Inr (r, s') \<longrightarrow>
               (action r = ''execute_action'' \<longleftrightarrow> is_execution_confirmation u))
         \<and> (is_execution_confirmation u
              \<longleftrightarrow> (\<exists>w \<in> set execution_lexicon. sublist w (strip (lower u))))"
proof -
  have yes: "process_user_input c s u =
              Inr (\<lparr>response_text = ''Executing your request...'', action = ''execute_action'',
                    metadata = [(''intent'', meta_opt (active_intent s)),
                                (''slots'', MSlots (get_filled_slots s))]\<rparr>, s)"
    if "is_execution_confirmation u"
    using that is_execution_confirmation_not_blank [OF that] assms
    by (simp add: process_user_input_def)
  have no: "process_user_input c s u = handle_slot_collection c s u"
    if "\<not> is_execution_confirmation u" "strip u \<noteq> []"
  proof -
    have "u \<noteq> []" using that(2) by (auto simp: strip_def)
    then show ?thesis using that assms by (simp add: process_user_input_def)
  qed
  have iff: "action r = ''execute_action'' \<longleftrightarrow> is_execution_confirmation u"
    if res: "process_user_input c s u = Inr (r, s')" for r s'
  proof (cases "is_execution_confirmation u")
    case True
    then show ?thesis using yes [OF True] res by auto
  next
    case False
    show ?thesis
    proof (cases "u = [] \<or> strip u = []")
      case True
      then have "action r = ''clarify''"
        using res by (auto simp: process_user_input_def)
      then show ?thesis using False by simp
    next
      case nb: False
      then have "handle_slot_collection c s u = Inr (r, s')"
        using no [OF False] res by simp
      then have "collection_action (action r)"
        by (rule handle_slot_collection_action)
      then show ?thesis using False by (auto simp: collection_action_simps)
    qed
  qed
  show ?thesis
    using yes no iff get_filled_slots_set [of s] is_execution_confirmation_sublist [of u]
    by blast
qed

theorem execution_confirmation_witness:
  "current_state ready_for_execution = READY_TO_EXECUTE
   \<and> is_execution_confirmation ''Yes, go ahead''
   \<and> process_user_input deaf_collaborators ready_for_execution ''Yes, go ahead''
       = Inr (\<lparr>response_text = ''Executing your request...'', action = ''execute_action'',
               metadata = [(''intent'', MStr ''request_time_off''),
                           (''slots'', MSlots [(''employee_name'', ''John Smith''),
                              (''start_date'', ''2025-01-13''), (''end_date'', ''2025-01-17''),
                              (''time_off_type'', ''vacation''), (''reason'', ''family visit''),
                              (''notify_manager'', ''yes'')])]\<rparr>,
              ready_for_execution)
   \<and> is_execution_confirmation ''nope, not okay''
   \<and> \<not> is_execution_confirmation ''wait''
   \<and> process_user_input deaf_collaborators ready_for_execution ''wait''
       = handle_slot_collection deaf_collaborators ready_for_execution ''wait''
   \<and> is_execution_confirmation ''PROCEED''
   \<and> (\<exists>r. process_user_input deaf_collaborators ready_for_execution ''PROCEED''
              = Inr (r, ready_for_execution)
          \<and> action r = ''execute_action'')
   \<and> \<not> is_execution_confirmation [CHR 0x85, CHR 0x20]
   \<and> process_user_input deaf_collaborators ready_for_execution [CHR 0x85, CHR 0x20]
       = Inr (\<lparr>response_text = ''I didn't catch that. Could you please repeat?'',
               action = ''clarify'', metadata = []\<rparr>, ready_for_execution)"
proof -
  have h: "current_state ready_for_execution = READY_TO_EXECUTE"
    by (simp add: ready_for_execution_def transition_to_def)
  have y: "is_execution_confirmation ''Yes, go ahead''"
    by (simp add: is_execution_confirmation_def execution_lexicon_def strip_def lower_def
          lower_char_def upper_letters_def lower_letters_def is_space_def sublist_code prefix_code)
  have o: "is_execution_confirmation ''nope, not okay''"
    by (simp add: is_execution_confirmation_def execution_lexicon_def strip_def lower_def
          lower_char_def upper_letters_def lower_letters_def is_space_def sublist_code prefix_code)
  have w: "\<not> is_execution_confirmation ''wait''"
    by (simp add: is_execution_confirmation_def execution_lexicon_def strip_def lower_def
          lower_char_def upper_letters_def lower_letters_def is_space_def sublist_code prefix_code)
  have nb: "strip ''wait'' \<noteq> []"
    by (simp add: strip_def is_space_def)
  have u: "is_execution_confirmation ''PROCEED''"
    by (simp add: is_execution_confirmation_def execution_lexicon_def strip_def lower_def
          lower_char_def upper_letters_def lower_letters_def is_space_def sublist_code prefix_code)
  have b: "\<not> is_execution_confirmation [CHR 0x85, CHR 0x20]"
    by (simp add: is_execution_confirmation_def execution_lexicon_def strip_def lower_def
          lower_char_def upper_letters_def lower_letters_def is_space_def sublist_code prefix_code)
  have cl: "process_user_input deaf_collaborators ready_for_execution [CHR 0x85, CHR 0x20]
       = Inr (\<lparr>response_text = ''I didn't catch that. Could you please repeat?'',
               action = ''clarify'', metadata = []\<rparr>, ready_for_execution)"
    by (simp add: process_user_input_def strip_def is_space_def)
  have m: "meta_opt (active_intent ready_for_execution) = MStr ''request_time_off''"
    by (simp add: ready_for_execution_def fsm_eval dm_eval meta_opt_def)
  have f: "get_filled_slots ready_for_execution
           = [(''employee_name'', ''John Smith''),
              (''start_date'', ''2025-01-13''), (''end_date'', ''2025-01-17''),
              (''time_off_type'', ''vacation''), (''reason'', ''family visit''),
              (''notify_manager'', ''yes'')]"
    by (simp add: ready_for_execution_def fsm_eval dm_eval)
  show ?thesis
    using execution_confirmation [OF h, of "''Yes, go ahead''" deaf_collaborators]
      execution_confirmation [OF h, of "''wait''" deaf_collaborators]
      execution_confirmation [OF h, of "''PROCEED''" deaf_collaborators] h y o w nb u b cl m f
    by simp
qed

subsection \<open>Confirming a normalization\<close>

lemma check_all_slots_filled_known:
  "get_slot_names task = Inr names \<Longrightarrow>
   check_all_slots_filled s task = Inr (all_confirmed s names)"
  using get_slot_names_empty
  by (auto simp: check_all_slots_filled_def all_confirmed_def)

lemma known_task_nonempty: "get_slot_names task = Inr names \<Longrightarrow> task \<noteq> []"
  using get_slot_names_empty by auto

lemma known_task_slot_names_nonempty: "get_slot_names task = Inr names \<Longrightarrow> [] \<notin> set names"
  by (auto simp: get_slot_names_def get_schema_def TASK_SCHEMAS_def split: if_splits)

lemma questions_keys:
  "fst ` set (foldl (\<lambda>d sl. AList.update (name sl) (question sl) d) d0 slots)
   = fst ` set d0 \<union> name ` set slots"
  by (induction slots arbitrary: d0) (auto simp: dom_update)

lemma known_task_questions:
  assumes "get_slot_names task = Inr names"
  shows "\<exists>qs. get_slot_questions task = Inr qs \<and> (\<forall>x \<in> set names. map_of qs x \<noteq> None)"
proof -
  obtain slots where sl: "get_schema task = Inr slots" "names = map name slots"
    using assms by (auto simp: get_slot_names_def split: sum.splits)
  let ?qs = "foldl (\<lambda>d sl. AList.update (name sl) (question sl) d) [] slots"
  have "get_slot_questions task = Inr ?qs"
    using sl(1) by (simp add: get_slot_questions_def)
  moreover have "\<forall>x \<in> set names. map_of ?qs x \<noteq> None"
    using questions_keys [of "[]" slots] sl(2)
    by (auto simp: map_of_eq_None_iff)
  ultimately show ?thesis by blast
qed

lemma advance_state_confirming:
  assumes "current_state s = CONFIRMING_NORMALIZATION" and "active_intent s = Some task"
    and "get_slot_names task = Inr names"
  shows "advance_state s =
           Inr (transition_to s (if all_confirmed s names then READY_TO_EXECUTE else COLLECTING_SLOT))"
  using assms known_task_nonempty [OF assms(3)] check_all_slots_filled_known [OF assms(3), of s]
  by (simp add: advance_state_def)

lemma start_slot_collection_known:
  assumes "active_intent s = Some task" and "get_slot_names task = Inr names"
    and "current_state s = (if all_confirmed s names then READY_TO_EXECUTE else COLLECTING_SLOT)"
  shows "\<exists>r s'. start_slot_collection s = Inr (r, s')
           \<and> slot_values s' = slot_values s
           \<and> (action r = ''ask_slot'' \<or> action r = ''ready_to_execute'')
           \<and> (current_state s' = READY_TO_EXECUTE \<longleftrightarrow> all_confirmed s names)
           \<and> (pending_normalization s = None \<longrightarrow>
                 pending_normalization s' = None \<and> current_state s' = current_state s)"
proof -
  have ne: "task \<noteq> []" using known_task_nonempty [OF assms(2)] .
  have nm: "get_next_missing_slot s task
            = Inr (List.find (\<lambda>x. map_of (slot_values s) x = None) names)"
    using get_next_missing_slot_find [OF assms(2)] .
  obtain qs where qs: "get_slot_questions task = Inr qs" "\<forall>x \<in> set names. map_of qs x \<noteq> None"
    using known_task_questions [OF assms(2)] by blast
  have chk: "check_all_slots_filled s task = Inr (all_confirmed s names)"
    using check_all_slots_filled_known [OF assms(2)] .
  show ?thesis
  proof (cases "List.find (\<lambda>x. map_of (slot_values s) x = None) names")
    case None
    show ?thesis
    proof (cases "all_confirmed s names")
      case True
      then have "advance_state s = Inr s"
        using assms(3) by (simp add: advance_state_def)
      then show ?thesis
        using None nm ne assms True
        by (simp add: start_slot_collection_def ready_all_result_def)
    next
      case False
      then have st: "current_state s = COLLECTING_SLOT" using assms(3) by simp
      have "\<exists>s'. advance_state s = Inr s' \<and> slot_values s' = slot_values s
                \<and> current_state s' \<noteq> READY_TO_EXECUTE
                \<and> (pending_normalization s = None \<longrightarrow>
                      pending_normalization s' = None \<and> current_state s' = current_state s)"
        using st assms(1) ne chk False
        by (auto simp: advance_state_def transition_to_def split: option.splits list.splits)
      then show ?thesis
        using None nm ne assms(1) False
        by (auto simp: start_slot_collection_def ready_all_result_def)
    qed
  next
    case (Some x)
    then have xin: "x \<in> set names" and xr: "map_of (slot_values s) x = None"
      by (auto simp: find_Some_iff)
    have xne: "x \<noteq> []" using xin known_task_slot_names_nonempty [OF assms(2)] by auto
    have nall: "\<not> all_confirmed s names"
      using xin xr by (force simp: all_confirmed_def list_all_iff)
    obtain q where q: "map_of qs x = Some q"
      using qs(2) xin by auto
    show ?thesis
      using Some nm ne assms xne nall qs(1) q
      by (simp add: start_slot_collection_def set_current_slot_def Let_def)
  qed
qed

lemma confirm_record_fun:
  "(\<lambda>slot. slot\<lparr>confirmed := True, needs_confirmation := False\<rparr>) = confirm_record"
  by (rule ext) (simp add: confirm_record_def)

lemma reject_record_fun:
  "(\<lambda>slot. slot\<lparr>normalized_value := None, needs_confirmation := False\<rparr>) = reject_record"
  by (rule ext) (simp add: reject_record_def)

lemma confirm_slot_map_of:
  "map_of (slot_values (snd (confirm_slot s k))) n
   = (if n = k then map_option confirm_record (map_of (slot_values s) n)
      else map_of (slot_values s) n)"
proof (cases "k \<in> set (map fst (slot_values s))")
  case True
  then show ?thesis
    by (auto simp: confirm_slot_def map_of_map_entry_cases confirm_record_fun)
next
  case False
  then have "map_of (slot_values s) k = None"
    by (simp add: map_of_eq_None_iff)
  then show ?thesis using False by (auto simp: confirm_slot_def)
qed

lemma confirm_slot_pending:
  "pending_normalization (snd (confirm_slot s k))
   = (if map_of (slot_values s) k \<noteq> None then None else pending_normalization s)"
  by (auto simp: confirm_slot_def map_of_eq_None_iff)

lemma confirm_slot_frame:
  "current_state (snd (confirm_slot s k)) = current_state s"
  "active_intent (snd (confirm_slot s k)) = active_intent s"
  by (auto simp: confirm_slot_def)

lemma confirm_record_idem: "map_option confirm_record (map_option confirm_record x) = map_option confirm_record x"
  by (cases x) (simp_all add: confirm_record_def)

lemma confirm_all_map_of:
  "map_of (slot_values (foldl (\<lambda>st k. snd (confirm_slot st k)) s ks)) n
   = (if n \<in> set ks then map_option confirm_record (map_of (slot_values s) n)
      else map_of (slot_values s) n)"
proof (induction ks arbitrary: s)
  case Nil
  then show ?case by simp
next
  case (Cons k ks)
  show ?case
    using Cons.IH [of "snd (confirm_slot s k)"]
    by (simp add: confirm_slot_map_of confirm_record_idem)
qed

lemma confirm_all_pending:
  "pending_normalization (foldl (\<lambda>st k. snd (confirm_slot st k)) s ks)
   = (if \<exists>k \<in> set ks. map_of (slot_values s) k \<noteq> None then None else pending_normalization s)"
proof (induction ks arbitrary: s)
  case Nil
  then show ?case by simp
next
  case (Cons k ks)
  let ?s1 = "snd (confirm_slot s k)"
  have dom: "(map_of (slot_values ?s1) m = None) = (map_of (slot_values s) m = None)" for m
    by (simp add: confirm_slot_map_of)
  have ex: "(\<exists>m \<in> set ks. map_of (slot_values ?s1) m \<noteq> None)
            = (\<exists>m \<in> set ks. map_of (slot_values s) m \<noteq> None)"
    using dom by simp
  have "pending_normalization (foldl (\<lambda>st k. snd (confirm_slot st k)) s (k # ks))
        = (if \<exists>m \<in> set ks. map_of (slot_values ?s1) m \<noteq> None then None
           else pending_normalization ?s1)"
    using Cons.IH [of ?s1] by simp
  also have "\<dots> = (if \<exists>m \<in> set ks. map_of (slot_values s) m \<noteq> None then None
           else pending_normalization ?s1)"
    unfolding ex ..
  also have "\<dots> = (if \<exists>m \<in> set (k # ks). map_of (slot_values s) m \<noteq> None then None
           else pending_normalization s)"
    by (simp add: confirm_slot_pending)
  finally show ?case .
qed

lemma confirm_all_frame:
  "current_state (foldl (\<lambda>st k. snd (confirm_slot st k)) s ks) = current_state s
   \<and> active_intent (foldl (\<lambda>st k. snd (confirm_slot st k)) s ks) = active_intent s"
  by (induction ks arbitrary: s) (simp_all add: confirm_slot_frame)

lemma reject_normalization_map_of:
  "map_of (slot_values (reject_normalization s k)) n
   = (if n = k then map_option reject_record (map_of (slot_values s) n)
      else map_of (slot_values s) n)"
  by (auto simp: reject_normalization_def map_of_map_entry_cases reject_record_fun)

lemma reject_record_idem: "map_option reject_record (map_option reject_record x) = map_option reject_record x"
  by (cases x) (simp_all add: reject_record_def)

lemma reject_all_map_of:
  "map_of (slot_values (foldl (\<lambda>st k. reject_normalization st k) s ks)) n
   = (if n \<in> set ks then map_option reject_record (map_of (slot_values s) n)
      else map_of (slot_values s) n)"
proof (induction ks arbitrary: s)
  case Nil
  then show ?case by simp
next
  case (Cons k ks)
  show ?case
    using Cons.IH [of "reject_normalization s k"]
    by (simp add: reject_normalization_map_of reject_record_idem)
qed

lemma reject_all_pending:
  "pending_normalization (foldl (\<lambda>st k. reject_normalization st k) s ks)
   = (if ks = [] then pending_normalization s else None)"
proof (induction ks arbitrary: s)
  case Nil
  then show ?case by simp
next
  case (Cons k ks)
  show ?case
    using Cons.IH [of "reject_normalization s k"]
    by (simp add: reject_normalization_def)
qed

lemma reject_all_frame:
  "current_state (foldl (\<lambda>st k. reject_normalization st k) s ks) = current_state s
   \<and> active_intent (foldl (\<lambda>st k. reject_normalization st k) s ks) = active_intent s"
  by (induction ks arbitrary: s) (simp_all add: reject_normalization_def)

text \<open>After the confirmations or rejections: advance, then ask for the next slot.\<close>

lemma advance_then_start:
  assumes "current_state s1 = CONFIRMING_NORMALIZATION" and "active_intent s1 = Some task"
    and "get_slot_names task = Inr names"
  shows "\<exists>r s'. (case advance_state s1 of Inl e \<Rightarrow> Inl e | Inr s2 \<Rightarrow> start_slot_collection s2)
                  = Inr (r, s')
           \<and> slot_values s' = slot_values s1
           \<and> (action r = ''ask_slot'' \<or> action r = ''ready_to_execute'')
           \<and> (current_state s' = READY_TO_EXECUTE \<longleftrightarrow> all_confirmed s1 names)
           \<and> (pending_normalization s1 = None \<longrightarrow>
                 pending_normalization s' = None
                 \<and> current_state s' = (if all_confirmed s1 names then READY_TO_EXECUTE
                                        else COLLECTING_SLOT))"
proof -
  define s2 where
    "s2 = transition_to s1 (if all_confirmed s1 names then READY_TO_EXECUTE else COLLECTING_SLOT)"
  have adv: "advance_state s1 = Inr s2"
    using advance_state_confirming [OF assms] by (simp add: s2_def)
  have sv: "slot_values s2 = slot_values s1"
    and pn: "pending_normalization s2 = pending_normalization s1"
    and cs: "current_state s2 = (if all_confirmed s1 names then READY_TO_EXECUTE else COLLECTING_SLOT)"
    and a2: "active_intent s2 = Some task"
    using assms(2) by (simp_all add: s2_def transition_to_def)
  have ac: "all_confirmed s2 names = all_confirmed s1 names"
    by (simp add: all_confirmed_def sv)
  have c2: "current_state s2 = (if all_confirmed s2 names then READY_TO_EXECUTE else COLLECTING_SLOT)"
    by (simp add: ac cs)
  from start_slot_collection_known [OF a2 assms(3) c2]
  obtain r s' where r: "start_slot_collection s2 = Inr (r, s')"
      "slot_values s' = slot_values s2"
      "action r = ''ask_slot'' \<or> action r = ''ready_to_execute''"
      "current_state s' = READY_TO_EXECUTE \<longleftrightarrow> all_confirmed s2 names"
      "pending_normalization s2 = None \<longrightarrow>
         pending_normalization s' = None \<and> current_state s' = current_state s2"
    by auto
  show ?thesis
    using r adv ac sv pn cs by auto
qed

lemma lexicons_disjoint:
  "w \<in> set negative_lexicon \<Longrightarrow> w \<notin> set affirmative_lexicon"
  by (auto simp: negative_lexicon_def affirmative_lexicon_def)

lemma lexicon_not_blank:
  assumes "strip (lower u) \<in> set affirmative_lexicon \<or> strip (lower u) \<in> set negative_lexicon"
  shows "u \<noteq> [] \<and> strip u \<noteq> []"
proof -
  have "strip (lower u) \<noteq> []"
    using assms by (auto simp: negative_lexicon_def affirmative_lexicon_def)
  then have "strip u \<noteq> []" by (simp add: strip_lower_empty)
  then show ?thesis by (auto simp: strip_def)
qed

lemma dispatch_confirming:
  "current_state s = CONFIRMING_NORMALIZATION \<Longrightarrow> strip u \<noteq> [] \<Longrightarrow>
   process_user_input c s u = handle_normalization_confirmation s u"
  by (auto simp: process_user_input_def strip_def)

lemma affirmative_turn:
  assumes "current_state s = CONFIRMING_NORMALIZATION" and "active_intent s = Some task"
    and "get_slot_names task = Inr names"
    and "strip (lower u) \<in> set affirmative_lexicon"
  shows "\<exists>r s'. handle_normalization_confirmation s u = Inr (r, s')
           \<and> (\<forall>n. map_of (slot_values s') n
                    = (if n \<in> set (pending_keys s)
                       then map_option confirm_record (map_of (slot_values s) n)
                       else map_of (slot_values s) n))
           \<and> (action r = ''ask_slot'' \<or> action r = ''ready_to_execute'')
           \<and> (current_state s' = READY_TO_EXECUTE \<longleftrightarrow> all_confirmed s' names)
           \<and> ((\<exists>n \<in> set (pending_keys s). map_of (slot_values s) n \<noteq> None) \<longrightarrow>
                 pending_normalization s' = None
                 \<and> current_state s' = (if all_confirmed s' names then READY_TO_EXECUTE
                                        else COLLECTING_SLOT))"
proof -
  define s1 where "s1 = confirm_pending s"
  have c1: "current_state s1 = CONFIRMING_NORMALIZATION" and a1: "active_intent s1 = Some task"
    using assms(1,2) confirm_all_frame [of s "pending_keys s"]
    by (simp_all add: s1_def confirm_pending_def)
  have m1: "map_of (slot_values s1) n
            = (if n \<in> set (pending_keys s)
               then map_option confirm_record (map_of (slot_values s) n)
               else map_of (slot_values s) n)" for n
    using confirm_all_map_of [of s "pending_keys s" n] by (simp add: s1_def confirm_pending_def)
  have p1: "(\<exists>n \<in> set (pending_keys s). map_of (slot_values s) n \<noteq> None)
            \<longrightarrow> pending_normalization s1 = None"
    using confirm_all_pending [of s "pending_keys s"] by (simp add: s1_def confirm_pending_def)
  from advance_then_start [OF c1 a1 assms(3)]
  obtain r s' where r:
      "(case advance_state s1 of Inl e \<Rightarrow> Inl e | Inr s2 \<Rightarrow> start_slot_collection s2) = Inr (r, s')"
      "slot_values s' = slot_values s1"
      "action r = ''ask_slot'' \<or> action r = ''ready_to_execute''"
      "current_state s' = READY_TO_EXECUTE \<longleftrightarrow> all_confirmed s1 names"
      "pending_normalization s1 = None \<longrightarrow>
         pending_normalization s' = None
         \<and> current_state s' = (if all_confirmed s1 names then READY_TO_EXECUTE else COLLECTING_SLOT)"
    by auto
  have h: "handle_normalization_confirmation s u = Inr (r, s')"
    using assms(4) r(1) by (simp add: handle_normalization_confirmation_def s1_def)
  have ac: "all_confirmed s' names = all_confirmed s1 names"
    by (simp add: all_confirmed_def r(2))
  show ?thesis
    using h m1 p1 r(2,3,4,5) ac by auto
qed

lemma negative_turn:
  assumes "current_state s = CONFIRMING_NORMALIZATION" and "active_intent s = Some task"
    and "get_slot_names task = Inr names"
    and "strip (lower u) \<in> set negative_lexicon"
  shows "\<exists>r s'. handle_normalization_confirmation s u = Inr (r, s')
           \<and> (\<forall>n. map_of (slot_values s') n
                    = (if n \<in> set (pending_keys s)
                       then map_option reject_record (map_of (slot_values s) n)
                       else map_of (slot_values s) n))
           \<and> (action r = ''ask_slot'' \<or> action r = ''ready_to_execute'')
           \<and> (current_state s' = READY_TO_EXECUTE \<longleftrightarrow> all_confirmed s' names)
           \<and> (pending_keys s \<noteq> [] \<longrightarrow>
                 pending_normalization s' = None
                 \<and> current_state s' = (if all_confirmed s' names then READY_TO_EXECUTE
                                        else COLLECTING_SLOT))"
proof -
  define s1 where "s1 = reject_pending s"
  have c1: "current_state s1 = CONFIRMING_NORMALIZATION" and a1: "active_intent s1 = Some task"
    using assms(1,2) reject_all_frame [of s "pending_keys s"]
    by (simp_all add: s1_def reject_pending_def)
  have m1: "map_of (slot_values s1) n
            = (if n \<in> set (pending_keys s)
               then map_option reject_record (map_of (slot_values s) n)
               else map_of (slot_values s) n)" for n
    using reject_all_map_of [of s "pending_keys s" n] by (simp add: s1_def reject_pending_def)
  have p1: "pending_keys s \<noteq> [] \<longrightarrow> pending_normalization s1 = None"
    using reject_all_pending [of s "pending_keys s"] by (simp add: s1_def reject_pending_def)
  from advance_then_start [OF c1 a1 assms(3)]
  obtain r s' where r:
      "(case advance_state s1 of Inl e \<Rightarrow> Inl e | Inr s2 \<Rightarrow> start_slot_collection s2) = Inr (r, s')"
      "slot_values s' = slot_values s1"
      "action r = ''ask_slot'' \<or> action r = ''ready_to_execute''"
      "current_state s' = READY_TO_EXECUTE \<longleftrightarrow> all_confirmed s1 names"
      "pending_normalization s1 = None \<longrightarrow>
         pending_normalization s' = None
         \<and> current_state s' = (if all_confirmed s1 names then READY_TO_EXECUTE else COLLECTING_SLOT)"
    by auto
  have na: "strip (lower u) \<notin> set affirmative_lexicon"
    using lexicons_disjoint [OF assms(4)] .
  have h: "handle_normalization_confirmation s u = Inr (r, s')"
    using assms(4) na r(1) by (simp add: handle_normalization_confirmation_def s1_def)
  have ac: "all_confirmed s' names = all_confirmed s1 names"
    by (simp add: all_confirmed_def r(2))
  show ?thesis
    using h m1 p1 r(2,3,4,5) ac by auto
qed

lemma unclear_turn:
  assumes "strip (lower u) \<notin> set affirmative_lexicon" and "strip (lower u) \<notin> set negative_lexicon"
  shows "\<exists>r. handle_normalization_confirmation s u = Inr (r, s)
           \<and> action r = ''confirm_normalization''
           \<and> (\<forall>n v rest. pending_normalization s = Some ((n, v) # rest) \<longrightarrow>
                 metadata r = [(''slot'', MStr n), (''proposed_value'', MStr v)])"
  using assms
  by (auto simp: handle_normalization_confirmation_def split: option.splits list.splits)

text \<open>
  Claim C8 (normalization confirmation turn), for an active task of the registry in
  phase \<^verbatim>\<open>CONFIRMING_NORMALIZATION\<close>. A non-blank utterance is handled by
  \<^verbatim>\<open>_handle_normalization_confirmation\<close>. If the lower-cased, stripped utterance is in
  the affirmative lexicon, the record of every slot named in the pending normalization is
  confirmed (value kept, awaiting flag cleared) and no other record changes; if it is in
  the negative lexicon, the proposal and the awaiting flag of every such record are
  cleared and no other record changes. In both cases the state then advances: the answer
  is \<^verbatim>\<open>ask_slot\<close> or \<^verbatim>\<open>ready_to_execute\<close>, the phase is \<^verbatim>\<open>READY_TO_EXECUTE\<close> exactly
  when every schema slot is confirmed, and once the pending normalization is cleared the
  phase is \<^verbatim>\<open>READY_TO_EXECUTE\<close> or \<^verbatim>\<open>COLLECTING_SLOT\<close>. Any other utterance leaves
  the whole state as it is and is answered with \<^verbatim>\<open>confirm_normalization\<close>, whose
  metadata are the slot and the proposed value of the first pending proposal.
\<close>

theorem normalization_confirmation_turn:
  assumes "current_state s = CONFIRMING_NORMALIZATION" and "active_intent s = Some task"
    and "get_slot_names task = Inr names"
  shows "(strip u \<noteq> [] \<longrightarrow> process_user_input c s u = handle_normalization_confirmation s u)
    \<and> (strip (lower u) \<in> set affirmative_lexicon \<longrightarrow>
          strip u \<noteq> []
          \<and> (\<exists>r s'. handle_normalization_confirmation s u = Inr (r, s')
                \<and> (\<forall>n. map_of (slot_values s') n
                         = (if n \<in> set (pending_keys s)
                            then map_option confirm_record (map_of (slot_values s) n)
                            else map_of (slot_values s) n))
                \<and> (action r = ''ask_slot'' \<or> action r = ''ready_to_execute'')
                \<and> (current_state s' = READY_TO_EXECUTE \<longleftrightarrow> all_confirmed s' names)
                \<and> ((\<exists>n \<in> set (pending_keys s). map_of (slot_values s) n \<noteq> None) \<longrightarrow>
                      pending_normalization s' = None
                      \<and> current_state s' = (if all_confirmed s' names then READY_TO_EXECUTE
                                             else COLLECTING_SLOT))))
    \<and> (strip (lower u) \<in> set negative_lexicon \<longrightarrow>
          strip u \<noteq> []
          \<and> (\<exists>r s'. handle_normalization_confirmation s u = Inr (r, s')
                \<and> (\<forall>n. map_of (slot_values s') n
                         = (if n \<in> set (pending_keys s)
                            then map_option reject_record (map_of (slot_values s) n)
                            else map_of (slot_values s) n))
                \<and> (action r = ''ask_slot'' \<or> action r = ''ready_to_execute'')
                \<and> (current_state s' = READY_TO_EXECUTE \<longleftrightarrow> all_confirmed s' names)
                \<and> (pending_keys s \<noteq> [] \<longrightarrow>
                      pending_normalization s' = None
                      \<and> current_state s' = (if all_confirmed s' names then READY_TO_EXECUTE
                                             else COLLECTING_SLOT))))
    \<and> (strip (lower u) \<notin> set affirmative_lexicon \<longrightarrow> strip (lower u) \<notin> set negative_lexicon \<longrightarrow>
          (\<exists>r. handle_normalization_confirmation s u = Inr (r, s)
             \<and> action r = ''confirm_normalization''
             \<and> (\<forall>n v rest. pending_normalization s = Some ((n, v) # rest) \<longrightarrow>
                   metadata r = [(''slot'', MStr n), (''proposed_value'', MStr v)])))"
proof (intro conjI impI)
  assume "strip u \<noteq> []"
  then show "process_user_input c s u = handle_normalization_confirmation s u"
    using dispatch_confirming [OF assms(1)] by simp
next
  assume "strip (lower u) \<in> set affirmative_lexicon"
  then show "strip u \<noteq> []" using lexicon_not_blank by blast
next
  assume a: "strip (lower u) \<in> set affirmative_lexicon"
  show "\<exists>r s'. handle_normalization_confirmation s u = Inr (r, s')
                \<and> (\<forall>n. map_of (slot_values s') n
                         = (if n \<in> set (pending_keys s)
                            then map_option confirm_record (map_of (slot_values s) n)
                            else map_of (slot_values s) n))
                \<and> (action r = ''ask_slot'' \<or> action r = ''ready_to_execute'')
                \<and> (current_state s' = READY_TO_EXECUTE \<longleftrightarrow> all_confirmed s' names)
                \<and> ((\<exists>n \<in> set (pending_keys s). map_of (slot_values s) n \<noteq> None) \<longrightarrow>
                      pending_normalization s' = None
                      \<and> current_state s' = (if all_confirmed s' names then READY_TO_EXECUTE
                                             else COLLECTING_SLOT))"
    using affirmative_turn [OF assms a] .
next
  assume "strip (lower u) \<in> set negative_lexicon"
  then show "strip u \<noteq> []" using lexicon_not_blank by blast
next
  assume a: "strip (lower u) \<in> set negative_lexicon"
  show "\<exists>r s'. handle_normalization_confirmation s u = Inr (r, s')
                \<and> (\<forall>n. map_of (slot_values s') n
                         = (if n \<in> set (pending_keys s)
                            then map_option reject_record (map_of (slot_values s) n)
                            else map_of (slot_values s) n))
                \<and> (action r = ''ask_slot'' \<or> action r = ''ready_to_execute'')
                \<and> (current_state s' = READY_TO_EXECUTE \<longleftrightarrow> all_confirmed s' names)
                \<and> (pending_keys s \<noteq> [] \<longrightarrow>
                      pending_normalization s' = None
                      \<and> current_state s' = (if all_confirmed s' names then READY_TO_EXECUTE
                                             else COLLECTING_SLOT))"
    using negative_turn [OF assms a] .
next
  assume a: "strip (lower u) \<notin> set affirmative_lexicon" "strip (lower u) \<notin> set negative_lexicon"
  show "\<exists>r. handle_normalization_confirmation s u = Inr (r, s)
             \<and> action r = ''confirm_normalization''
             \<and> (\<forall>n v rest. pending_normalization s = Some ((n, v) # rest) \<longrightarrow>
                   metadata r = [(''slot'', MStr n), (''proposed_value'', MStr v)])"
    using unclear_turn [OF a] .
qed

theorem normalization_confirmation_turn_witness:
  "current_state normalization_pending = CONFIRMING_NORMALIZATION
   \<and> active_intent normalization_pending = Some ''request_time_off''
   \<and> get_slot_names ''request_time_off''
       = Inr [''employee_name'', ''start_date'', ''end_date'', ''time_off_type'', ''reason'',
              ''notify_manager'']
   \<and> pending_normalization normalization_pending = Some [(''start_date'', ''2025-01-13'')]
   \<and> strip (lower '' Yes '') \<in> set affirmative_lexicon
   \<and> turn_summary (process_user_input deaf_collaborators normalization_pending '' Yes '') ''start_date''
       = Some (''ask_slot'', COLLECTING_SLOT, None,
               Some \<lparr>slot_value = ''next Monday'', confirmed = True, retry_count = 0,
                     normalized_value = Some ''2025-01-13'', needs_confirmation = False\<rparr>)
   \<and> strip (lower (''YES'' @ [CHR 0xA0])) \<in> set affirmative_lexicon
   \<and> turn_summary
         (process_user_input deaf_collaborators normalization_pending (''YES'' @ [CHR 0xA0]))
         ''start_date''
       = Some (''ask_slot'', COLLECTING_SLOT, None,
               Some \<lparr>slot_value = ''next Monday'', confirmed = True, retry_count = 0,
                     normalized_value = Some ''2025-01-13'', needs_confirmation = False\<rparr>)
   \<and> strip (lower ''nope'') \<in> set negative_lexicon
   \<and> turn_summary (process_user_input deaf_collaborators normalization_pending ''nope'') ''start_date''
       = Some (''ask_slot'', COLLECTING_SLOT, None,
               Some \<lparr>slot_value = ''next Monday'', confirmed = False, retry_count = 0,
                     normalized_value = None, needs_confirmation = False\<rparr>)
   \<and> strip (lower ''maybe'') \<notin> set affirmative_lexicon
   \<and> strip (lower ''maybe'') \<notin> set negative_lexicon
   \<and> (\<exists>r. process_user_input deaf_collaborators normalization_pending ''maybe''
              = Inr (r, normalization_pending)
          \<and> action r = ''confirm_normalization''
          \<and> metadata r = [(''slot'', MStr ''start_date''), (''proposed_value'', MStr ''2025-01-13'')])"
proof -
  have h1: "current_state normalization_pending = CONFIRMING_NORMALIZATION"
    by (simp add: normalization_pending_def propose_normalization_def transition_to_def)
  have h2: "active_intent normalization_pending = Some ''request_time_off''"
    by (simp add: normalization_pending_def propose_normalization_def fsm_eval)
  have h3: "get_slot_names ''request_time_off''
       = Inr [''employee_name'', ''start_date'', ''end_date'', ''time_off_type'', ''reason'',
              ''notify_manager'']"
    by (simp add: get_slot_names_def get_schema_def TASK_SCHEMAS_def)
  have p: "pending_normalization normalization_pending = Some [(''start_date'', ''2025-01-13'')]"
    by (simp add: normalization_pending_def propose_normalization_def fsm_eval)
  have y: "turn_summary (process_user_input deaf_collaborators normalization_pending '' Yes '') ''start_date''
       = Some (''ask_slot'', COLLECTING_SLOT, None,
               Some \<lparr>slot_value = ''next Monday'', confirmed = True, retry_count = 0,
                     normalized_value = Some ''2025-01-13'', needs_confirmation = False\<rparr>)"
    by (simp add: turn_summary_def normalization_pending_def propose_normalization_def
          affirmative_lexicon_def negative_lexicon_def pending_keys_def confirm_pending_def
          reject_pending_def fsm_eval dm_eval)
  have n: "turn_summary (process_user_input deaf_collaborators normalization_pending ''nope'') ''start_date''
       = Some (''ask_slot'', COLLECTING_SLOT, None,
               Some \<lparr>slot_value = ''next Monday'', confirmed = False, retry_count = 0,
                     normalized_value = None, needs_confirmation = False\<rparr>)"
    by (simp add: turn_summary_def normalization_pending_def propose_normalization_def
          affirmative_lexicon_def negative_lexicon_def pending_keys_def confirm_pending_def
          reject_pending_def fsm_eval dm_eval)
  have ys: "strip (lower (''YES'' @ [CHR 0xA0])) \<in> set affirmative_lexicon"
    by (simp add: affirmative_lexicon_def strip_def lower_def lower_char_def upper_letters_def
          lower_letters_def is_space_def)
  have yt: "turn_summary
         (process_user_input deaf_collaborators normalization_pending (''YES'' @ [CHR 0xA0]))
         ''start_date''
       = Some (''ask_slot'', COLLECTING_SLOT, None,
               Some \<lparr>slot_value = ''next Monday'', confirmed = True, retry_count = 0,
                     normalized_value = Some ''2025-01-13'', needs_confirmation = False\<rparr>)"
    by (simp add: turn_summary_def normalization_pending_def propose_normalization_def
          affirmative_lexicon_def negative_lexicon_def pending_keys_def confirm_pending_def
          reject_pending_def fsm_eval dm_eval)
  have ly: "strip (lower '' Yes '') \<in> set affirmative_lexicon"
    and ln: "strip (lower ''nope'') \<in> set negative_lexicon"
    and lm: "strip (lower ''maybe'') \<notin> set affirmative_lexicon"
            "strip (lower ''maybe'') \<notin> set negative_lexicon"
    and nb: "strip ''maybe'' \<noteq> []"
    by (simp_all add: affirmative_lexicon_def negative_lexicon_def strip_def lower_def
          lower_char_def upper_letters_def lower_letters_def is_space_def)
  show ?thesis
    using normalization_confirmation_turn [OF h1 h2 h3, of "''maybe''" deaf_collaborators]
      h1 h2 h3 p y n ys yt ly ln lm nb
    by simp
qed

subsection \<open>Retry exhaustion, for every task\<close>

lemma increment_retry_keys:
  "map fst (slot_values (snd (increment_retry s n))) = map fst (slot_values s)"
proof -
  have "map fst (AList.map_entry k f xs) = map fst xs" for k f and xs :: "(string \<times> SlotValue) list"
    by (induction xs) auto
  then show ?thesis by (simp add: increment_retry_def Let_def)
qed

lemma get_next_missing_slot_keys:
  assumes "map fst (slot_values s') = map fst (slot_values s)"
  shows "get_next_missing_slot s' task = get_next_missing_slot s task"
  unfolding get_next_missing_slot_def get_missing_slots_def assms ..

text \<open>
  The same for every task of the registry and all collaborators: when the slot being
  collected has no record, is the next missing slot and has used up its retries, a
  failed attempt is answered with \<^verbatim>\<open>ask_slot\<close> for that slot, which stays the current
  slot; no record is created, so the next failure is answered the same way.
\<close>

lemma exhausted_slot_is_asked_again:
  assumes "current_state s = COLLECTING_SLOT" and "active_intent s = Some task"
    and "get_slot_names task = Inr names"
    and "current_slot_being_collected s = Some slot"
    and "get_next_missing_slot s task = Inr (Some slot)"
    and "select_slots c u task (get_filled_slots s) = []"
    and "\<not> truthy (extract_slot_value c u slot task)"
    and "2 \<le> retries_of s slot" and "strip u \<noteq> []"
  shows "\<exists>r s'. process_user_input c s u = Inr (r, s') \<and> action r = ''ask_slot''
           \<and> map_of (metadata r) ''slot'' = Some (MStr slot)
           \<and> current_slot_being_collected s' = Some slot
           \<and> retries_of s' slot = retries_of s slot + 1
           \<and> map fst (slot_values s') = map fst (slot_values s)"
proof -
  have ne: "task \<noteq> []" using known_task_nonempty [OF assms(3)] .
  have f: "List.find (\<lambda>x. map_of (slot_values s) x = None) names = Some slot"
    using get_next_missing_slot_find [OF assms(3), of s] assms(5) by simp
  then have sin: "slot \<in> set names"
    by (auto simp: find_Some_iff)
  then have sne: "slot \<noteq> []"
    using known_task_slot_names_nonempty [OF assms(3)] by auto
  obtain qs q where qs: "get_slot_questions task = Inr qs" "map_of qs slot = Some q"
    using known_task_questions [OF assms(3)] sin by auto
  define s1 where "s1 = snd (increment_retry s slot)"
  define s2 where "s2 = set_current_slot s1 None"
  have inc: "increment_retry s slot = (False, s1)"
    using assms(8) by (simp add: s1_def increment_retry_def Let_def MAX_RETRIES_def retries_of_def)
  have psc: "process_slot_collection s slot None = (MaxRetries slot, s1)"
    by (simp add: process_slot_collection_def inc)
  have k2: "map fst (slot_values s2) = map fst (slot_values s)"
    using increment_retry_keys [of s slot] by (simp add: s2_def s1_def set_current_slot_def)
  have a2: "active_intent s2 = Some task"
    using assms(2) by (simp add: s2_def s1_def set_current_slot_def increment_retry_def Let_def)
  have nm2: "get_next_missing_slot s2 task = Inr (Some slot)"
    using get_next_missing_slot_keys [OF k2] assms(5) by simp
  have r2: "retries_of s2 slot = retries_of s slot + 1"
    using retries_increment_retry [of s slot slot]
    by (simp add: s2_def s1_def set_current_slot_def retries_of_def)
  define r where
    "r = \<lparr>response_text = q, action = ''ask_slot'',
          metadata = [(''slot'', MStr slot), (''intent'', MStr task), (''question'', MStr q)]\<rparr>"
  have start: "start_slot_collection s2 = Inr (r, set_current_slot s2 (Some slot))"
    using a2 ne nm2 sne qs by (simp add: start_slot_collection_def r_def Let_def)
  have retry: "retry_current_slot s slot task = Inr (r, set_current_slot s2 (Some slot))"
    using psc nm2 sne start by (simp add: retry_current_slot_def s2_def Let_def)
  have h: "handle_slot_collection c s u = Inr (r, set_current_slot s2 (Some slot))"
    using assms(2,4,6,7) ne sne retry by (simp add: handle_slot_collection_def Let_def)
  have une: "u \<noteq> []" using assms(9) by (auto simp: strip_def)
  have p: "process_user_input c s u = Inr (r, set_current_slot s2 (Some slot))"
    using assms(1,9) une h by (simp add: process_user_input_def)
  show ?thesis
    using p k2 r2 by (auto simp: r_def set_current_slot_def retries_of_def)
qed

end
